theory Spec2Isabelle
  imports Main "HOL-Library.Multiset" "HOL-Library.Word"
begin

section \<open>The concurrent check evaluator of internal/graph/check.go\<close>

subsection \<open>Data model\<close>

text \<open>
  \<^verbatim>\<open>v0.ObjectAndRelation\<close>: the triple (namespace, object id, relation).
\<close>

record ObjectAndRelation =
  Namespace :: string
  ObjectId :: string
  Relation :: string

text \<open>
  Modelled from the spec: the message types of package \<^verbatim>\<open>v0\<close> are declared outside
  \<^verbatim>\<open>check.go\<close>. Following the data model of the specification, a relation tuple
  is the pair of its object ONR and of the userset of its user
  (\<^verbatim>\<open>tpl.ObjectAndRelation\<close> and \<^verbatim>\<open>tpl.User.GetUserset()\<close>).

  Both are pointers, and \<open>'o\<close> is the type of what they hold. A tuple that the datastore
  yields holds both ONRs, as in the data model: it is a \<open>RelationTuple\<close>. The tuple that
  \<^verbatim>\<open>checkComputedUserset\<close> receives is any \<^verbatim>\<open>*v0.RelationTuple\<close>: it is a
  \<open>RelationTuple_ptr\<close>, in which either pointer may be \<^verbatim>\<open>nil\<close> (\<open>None\<close>);
  \<^verbatim>\<open>tpl.User.GetUserset()\<close> is \<^verbatim>\<open>nil\<close> also when the tuple has no user.
\<close>

record 'o RelationTuple_of =
  Tuple_ObjectAndRelation :: 'o
  User_Userset :: 'o

type_synonym RelationTuple = "ObjectAndRelation RelationTuple_of"

type_synonym RelationTuple_ptr = "ObjectAndRelation option RelationTuple_of"

definition tuple_ptr :: "RelationTuple \<Rightarrow> RelationTuple_ptr" where
  "tuple_ptr tpl =
     \<lparr>Tuple_ObjectAndRelation = Some (Tuple_ObjectAndRelation tpl),
      User_Userset = Some (User_Userset tpl)\<rparr>"

text \<open>
  Modelled from the spec: the sentinel relation \<^verbatim>\<open>Ellipsis\<close> of a terminal subject
  reference is a constant declared outside \<^verbatim>\<open>check.go\<close>.
\<close>

definition Ellipsis :: string where
  "Ellipsis = ''...''"

text \<open>
  Go's \<^verbatim>\<open>error\<close> values that the evaluator builds or inspects. \<open>ErrWrapped\<close> is an
  error that wraps another one (\<^verbatim>\<open>Unwrap\<close>), \<open>ErrCause\<close> any other failure of a
  collaborator. \<open>ErrAlwaysFail\<close> is the error of the \<^verbatim>\<open>AlwaysFail\<close> check, the
  InvalidSchema kind of the specification.
\<close>

datatype error =
    ErrRelationNotFound
  | ErrCause string
  | ErrWrapped string error
  | ErrCheckFailure error
  | ErrRequestCanceled
  | ErrAlwaysFail

definition NewCheckFailureErr :: "error \<Rightarrow> error" where
  "NewCheckFailureErr baseErr = ErrCheckFailure baseErr"

definition NewRequestCanceledErr :: error where
  "NewRequestCanceledErr = ErrRequestCanceled"

text \<open>
  \<^verbatim>\<open>errors.As(err, &namespace.ErrRelationNotFound{})\<close>: some error of the
  \<^verbatim>\<open>Unwrap\<close> chain of \<open>err\<close> is a relation-not-found error.
\<close>

fun errors_As_ErrRelationNotFound :: "error \<Rightarrow> bool" where
  "errors_As_ErrRelationNotFound ErrRelationNotFound = True"
| "errors_As_ErrRelationNotFound (ErrWrapped msg err) = errors_As_ErrRelationNotFound err"
| "errors_As_ErrRelationNotFound err = False"

record CheckResult =
  IsMember :: bool
  Err :: "error option"

text \<open>
  \<^verbatim>\<open>CheckRequest\<close> is declared outside \<^verbatim>\<open>check.go\<close>; the types of the revision
  handle and of the depth budget are parameters \<open>'r\<close> and \<open>'d\<close> of the model. The
  evaluator only copies the revision and only subtracts one from the depth.

  \<^verbatim>\<open>Start\<close> is a pointer, and \<open>'o\<close> is the type of what it holds. \<^verbatim>\<open>check\<close>,
  \<^verbatim>\<open>checkDirect\<close>, \<^verbatim>\<open>checkTupleToUserset\<close> and the dispatcher take a request whose
  \<^verbatim>\<open>Start\<close> is an ONR, a \<open>CheckRequest\<close>. \<^verbatim>\<open>checkComputedUserset\<close> copies the
  pointer into its local \<^verbatim>\<open>start\<close> and dereferences it later: it takes a
  \<open>CheckRequest_ptr\<close>, in which \<^verbatim>\<open>Start\<close> may be \<^verbatim>\<open>nil\<close> (\<open>None\<close>). The goal of a
  request is taken as present in both.
\<close>

record ('o, 'r, 'd) CheckRequest_of =
  Start :: 'o
  Goal :: ObjectAndRelation
  AtRevision :: 'r
  DepthRemaining :: 'd

type_synonym ('r, 'd) CheckRequest = "(ObjectAndRelation, 'r, 'd) CheckRequest_of"

type_synonym ('r, 'd) CheckRequest_ptr = "(ObjectAndRelation option, 'r, 'd) CheckRequest_of"

definition request_ptr :: "('r, 'd) CheckRequest \<Rightarrow> ('r, 'd) CheckRequest_ptr" where
  "request_ptr req =
     \<lparr>Start = Some (Start req), Goal = Goal req, AtRevision = AtRevision req,
      DepthRemaining = DepthRemaining req\<rparr>"

text \<open>The ways in which the Go runtime aborts the evaluation.\<close>

datatype panic =
    Panic string
  | NilPointerDereference
  | MakechanSizeOutOfRange

subsection \<open>Contexts, goroutines and the order of arrival\<close>

text \<open>
  A reducer starts one goroutine per subcheck and then receives from its channels in a
  \<^verbatim>\<open>select\<close> loop. Which of the pending results the loop receives next, and whether
  it sees the cancellation of its context instead, is decided by the scheduler. The model
  makes that decision an input: a context carries the list of the scheduler's choices
  for the \<^verbatim>\<open>select\<close> loop run under it, and one context for each goroutine started
  under it (the \<^verbatim>\<open>childCtx\<close> of the source).

  \<open>Deliver k\<close> makes the \<open>k\<close>-th of the results still pending (counted modulo
  their number) the next one received; \<open>Cancel\<close> makes the \<^verbatim>\<open>ctx.Done()\<close> case
  fire. When the list of choices is used up, the pending results arrive in the order of
  their subchecks.
\<close>

datatype choice = Deliver nat | Cancel

datatype ctx = Ctx (sched: "choice list") (children: "ctx list")

definition Background :: ctx where
  "Background = Ctx [] []"

text \<open>What one iteration of a \<^verbatim>\<open>select\<close> loop observes.\<close>

datatype 'a event = Recv 'a | CtxDone

function arrivals :: "choice list \<Rightarrow> 'a list \<Rightarrow> 'a event list" where
  "arrivals s [] = []"
| "arrivals [] (x # xs) = Recv x # arrivals [] xs"
| "arrivals (Cancel # s) (x # xs) = [CtxDone]"
| "arrivals (Deliver k # s) (x # xs) =
     Recv ((x # xs) ! (k mod Suc (length xs)))
       # arrivals s (take (k mod Suc (length xs)) (x # xs)
                      @ drop (Suc (k mod Suc (length xs))) (x # xs))"
  by pat_completeness auto
termination
  by (relation "measure (\<lambda>(s, xs). length xs)") auto

text \<open>
  A \<^verbatim>\<open>ReduceableCheckFunc\<close> is a closure that, run under a context, sends exactly
  one result to its channel, unless it panics. The model keeps it a function: from the
  context to the result sent, or to the panic.
\<close>

type_synonym ReduceableCheckFunc = "ctx \<Rightarrow> panic + CheckResult"

text \<open>
  \<^verbatim>\<open>for _, req := range requests { go req(childCtx, resultChan) }\<close>: every subcheck
  runs under its own child context, and the results are the ones that will be sent. A
  panic in any goroutine ends the program, so it ends the evaluation.
\<close>

fun go_requests :: "ctx list \<Rightarrow> ReduceableCheckFunc list \<Rightarrow> panic + CheckResult list" where
  "go_requests cs [] = Inr []"
| "go_requests cs (req # requests) =
     (case req (case cs of [] \<Rightarrow> Background | childCtx # _ \<Rightarrow> childCtx) of
        Inl p \<Rightarrow> Inl p
      | Inr result \<Rightarrow>
          (case go_requests (tl cs) requests of
             Inl p \<Rightarrow> Inl p
           | Inr results \<Rightarrow> Inr (result # results)))"

subsection \<open>Constant checks\<close>

definition CheckError :: "error \<Rightarrow> ReduceableCheckFunc" where
  "CheckError err = (\<lambda>ctx. Inr \<lparr>IsMember = False, Err = Some err\<rparr>)"

definition AlwaysMember :: ReduceableCheckFunc where
  "AlwaysMember = (\<lambda>ctx. Inr \<lparr>IsMember = True, Err = None\<rparr>)"

definition NotMember :: ReduceableCheckFunc where
  "NotMember = (\<lambda>ctx. Inr \<lparr>IsMember = False, Err = None\<rparr>)"

text \<open>
  Modelled from the spec: \<^verbatim>\<open>AlwaysFail\<close> is declared outside \<^verbatim>\<open>check.go\<close>. By the
  specification an unrecognized operation is the fatal result \<open>{false, InvalidSchema}\<close>.
\<close>

definition AlwaysFail :: ReduceableCheckFunc where
  "AlwaysFail = (\<lambda>ctx. Inr \<lparr>IsMember = False, Err = Some ErrAlwaysFail\<rparr>)"

subsection \<open>Reducers\<close>

text \<open>The \<^verbatim>\<open>select\<close> loop of \<^verbatim>\<open>All\<close>, one equation per outcome of an iteration.\<close>

fun All_loop :: "CheckResult event list \<Rightarrow> CheckResult" where
  "All_loop [] = \<lparr>IsMember = True, Err = None\<rparr>"
| "All_loop (Recv result # es) =
     (if Err result \<noteq> None \<or> \<not> IsMember result then result else All_loop es)"
| "All_loop (CtxDone # es) = \<lparr>IsMember = False, Err = Some NewRequestCanceledErr\<rparr>"

definition All_reduce :: "ctx \<Rightarrow> ReduceableCheckFunc list \<Rightarrow> panic + CheckResult" where
  "All_reduce ctx requests =
     (if length requests = 0 then Inr \<lparr>IsMember = False, Err = None\<rparr>
      else case go_requests (children ctx) requests of
             Inl p \<Rightarrow> Inl p
           | Inr results \<Rightarrow> Inr (All_loop (arrivals (sched ctx) results)))"

fun Any_loop :: "error option \<Rightarrow> CheckResult event list \<Rightarrow> CheckResult" where
  "Any_loop downstreamError [] = \<lparr>IsMember = False, Err = downstreamError\<rparr>"
| "Any_loop downstreamError (Recv result # es) =
     (if Err result = None \<and> IsMember result then result
      else if Err result \<noteq> None then Any_loop (Err result) es
      else Any_loop downstreamError es)"
| "Any_loop downstreamError (CtxDone # es) =
     \<lparr>IsMember = False, Err = Some NewRequestCanceledErr\<rparr>"

definition Any :: "ctx \<Rightarrow> ReduceableCheckFunc list \<Rightarrow> panic + CheckResult" where
  "Any ctx requests =
     (if length requests = 0 then Inr \<lparr>IsMember = False, Err = None\<rparr>
      else case go_requests (children ctx) requests of
             Inl p \<Rightarrow> Inl p
           | Inr results \<Rightarrow> Inr (Any_loop None (arrivals (sched ctx) results)))"

text \<open>
  \<^verbatim>\<open>Difference\<close> receives the result of \<^verbatim>\<open>requests[0]\<close> on \<^verbatim>\<open>baseChan\<close> and the
  others on \<^verbatim>\<open>othersChan\<close>. With no request, \<^verbatim>\<open>make(chan CheckResult, -1)\<close>
  panics.
\<close>

datatype received = baseChan CheckResult | othersChan CheckResult

fun Difference_loop :: "received event list \<Rightarrow> CheckResult" where
  "Difference_loop [] = \<lparr>IsMember = True, Err = None\<rparr>"
| "Difference_loop (Recv (baseChan base) # es) =
     (if Err base \<noteq> None \<or> \<not> IsMember base then base else Difference_loop es)"
| "Difference_loop (Recv (othersChan sub) # es) =
     (if Err sub \<noteq> None \<or> IsMember sub then \<lparr>IsMember = False, Err = Err sub\<rparr>
      else Difference_loop es)"
| "Difference_loop (CtxDone # es) = \<lparr>IsMember = False, Err = Some NewRequestCanceledErr\<rparr>"

definition Difference :: "ctx \<Rightarrow> ReduceableCheckFunc list \<Rightarrow> panic + CheckResult" where
  "Difference ctx requests =
     (case requests of
        [] \<Rightarrow> Inl MakechanSizeOutOfRange
      | req0 # others \<Rightarrow>
          (case req0 (case children ctx of [] \<Rightarrow> Background | childCtx # _ \<Rightarrow> childCtx) of
             Inl p \<Rightarrow> Inl p
           | Inr base \<Rightarrow>
               (case go_requests (tl (children ctx)) others of
                  Inl p \<Rightarrow> Inl p
                | Inr subs \<Rightarrow>
                    Inr (Difference_loop
                           (arrivals (sched ctx) (baseChan base # map othersChan subs))))))"

type_synonym Reducer = "ctx \<Rightarrow> ReduceableCheckFunc list \<Rightarrow> panic + CheckResult"

subsection \<open>Schema\<close>

text \<open>
  Modelled from the spec: the schema messages of package \<^verbatim>\<open>v0\<close> are declared outside
  \<^verbatim>\<open>check.go\<close>. The selector of a computed userset has the two declared values;
  being a Go integer type it can hold any other number, which is the third constructor.
  A rewrite operation and a child of a set operation are interface values, tested by a
  type switch: the last constructor of each stands for a value that is none of the
  listed types (such as \<^verbatim>\<open>nil\<close>).
\<close>

datatype ComputedUserset_Object =
    ComputedUserset_TUPLE_OBJECT
  | ComputedUserset_TUPLE_USERSET_OBJECT
  | ComputedUserset_Object_undeclared

record ComputedUserset =
  cu_Object :: ComputedUserset_Object
  cu_Relation :: string

record TupleToUserset =
  Tupleset_Relation :: string
  ttu_ComputedUserset :: ComputedUserset

datatype UsersetRewrite =
    UsersetRewrite_Union SetOperation
  | UsersetRewrite_Intersection SetOperation
  | UsersetRewrite_Exclusion SetOperation
  | UsersetRewrite_unrecognized
and SetOperation = SetOperation (Child: "SetOperation_Child list")
and SetOperation_Child =
    SetOperation_Child_XThis
  | SetOperation_Child_ComputedUserset ComputedUserset
  | SetOperation_Child_UsersetRewrite UsersetRewrite
  | SetOperation_Child_TupleToUserset TupleToUserset
  | SetOperation_Child_unrecognized

record v0_Relation =
  Name :: string
  Relation_UsersetRewrite :: "UsersetRewrite option"

subsection \<open>The checker and its collaborators\<close>

text \<open>
  The three collaborators of \<^verbatim>\<open>concurrentChecker\<close>, as functions:
  \<^item> \<open>cc_d\<close>, the outer dispatcher: \<^verbatim>\<open>cc.d.Check(ctx, req)\<close>;
  \<^item> \<open>cc_ds\<close>, the datastore:
    \<^verbatim>\<open>QueryTuples(ns, rev).WithObjectID(oid).WithRelation(rel).Execute(ctx)\<close> is either
    an error or an iterator, that is the tuples \<^verbatim>\<open>Next()\<close> yields before it returns
    \<^verbatim>\<open>nil\<close>, and the value of \<^verbatim>\<open>Err()\<close> after that;
  \<^item> \<open>cc_nsm\<close>, the namespace manager:
    \<^verbatim>\<open>CheckNamespaceAndRelation(ctx, ns, rel, allowEllipsis)\<close>.
\<close>

record ('r, 'd) concurrentChecker =
  cc_d :: "ctx \<Rightarrow> ('r, 'd) CheckRequest \<Rightarrow> CheckResult"
  cc_ds :: "string \<Rightarrow> 'r \<Rightarrow> string \<Rightarrow> string \<Rightarrow> ctx
            \<Rightarrow> error + (RelationTuple list \<times> error option)"
  cc_nsm :: "ctx \<Rightarrow> string \<Rightarrow> string \<Rightarrow> bool \<Rightarrow> error option"

definition onrEqual :: "ObjectAndRelation \<Rightarrow> ObjectAndRelation \<Rightarrow> bool" where
  "onrEqual lhs rhs \<longleftrightarrow>
     ObjectId lhs = ObjectId rhs \<and> Relation lhs = Relation rhs \<and> Namespace lhs = Namespace rhs"

definition dispatch :: "('r, 'd) concurrentChecker \<Rightarrow> ('r, 'd) CheckRequest \<Rightarrow> ReduceableCheckFunc"
  where
  "dispatch cc req = (\<lambda>ctx. Inr (cc_d cc ctx req))"

subsection \<open>Direct check\<close>

text \<open>
  The loop over the iterator: \<open>Inl\<close> is the result sent from inside the loop, \<open>Inr\<close>
  the value of \<^verbatim>\<open>requestsToDispatch\<close> when \<^verbatim>\<open>Next()\<close> returns \<^verbatim>\<open>nil\<close>.
\<close>

fun checkDirect_loop ::
  "('r, 'd::{minus,one}) concurrentChecker \<Rightarrow> ('r, 'd) CheckRequest \<Rightarrow> RelationTuple list
     \<Rightarrow> ReduceableCheckFunc list \<Rightarrow> CheckResult + ReduceableCheckFunc list" where
  "checkDirect_loop cc req [] requestsToDispatch = Inr requestsToDispatch"
| "checkDirect_loop cc req (tpl # it) requestsToDispatch =
     (if onrEqual (User_Userset tpl) (Goal req) then Inl \<lparr>IsMember = True, Err = None\<rparr>
      else if Relation (User_Userset tpl) \<noteq> Ellipsis then
        checkDirect_loop cc req it
          (requestsToDispatch @
             [dispatch cc \<lparr>Start = User_Userset tpl, Goal = Goal req,
                           AtRevision = AtRevision req,
                           DepthRemaining = DepthRemaining req - 1\<rparr>])
      else checkDirect_loop cc req it requestsToDispatch)"

definition checkDirect ::
  "('r, 'd::{minus,one}) concurrentChecker \<Rightarrow> ctx \<Rightarrow> ('r, 'd) CheckRequest \<Rightarrow> ReduceableCheckFunc"
  where
  "checkDirect cc ctx0 req = (\<lambda>ctx.
     case cc_ds cc (Namespace (Start req)) (AtRevision req) (ObjectId (Start req))
            (Relation (Start req)) ctx of
       Inl err \<Rightarrow> Inr \<lparr>IsMember = False, Err = Some (NewCheckFailureErr err)\<rparr>
     | Inr (it, itErr) \<Rightarrow>
         (case checkDirect_loop cc req it [] of
            Inl result \<Rightarrow> Inr result
          | Inr requestsToDispatch \<Rightarrow>
              (case itErr of
                 Some err \<Rightarrow> Inr \<lparr>IsMember = False, Err = Some (NewCheckFailureErr err)\<rparr>
               | None \<Rightarrow> Any ctx requestsToDispatch)))"

subsection \<open>Computed userset\<close>

text \<open>
  Lines 122 to 135: the value of the local \<^verbatim>\<open>start\<close>, or the explicit panic. The
  pointer \<^verbatim>\<open>start\<close> is \<^verbatim>\<open>nil\<close> (here \<open>None\<close>) when the selector is neither of the
  declared ones, and when the pointer it is assigned, \<^verbatim>\<open>tpl.User.GetUserset()\<close>,
  \<^verbatim>\<open>tpl.ObjectAndRelation\<close> or \<^verbatim>\<open>req.Start\<close>, is \<^verbatim>\<open>nil\<close>.
\<close>

definition checkComputedUserset_start ::
  "('r, 'd) CheckRequest_ptr \<Rightarrow> ComputedUserset \<Rightarrow> RelationTuple_ptr option
     \<Rightarrow> panic + ObjectAndRelation option" where
  "checkComputedUserset_start req cu tpl =
     (if cu_Object cu = ComputedUserset_TUPLE_USERSET_OBJECT then
        (case tpl of
           None \<Rightarrow> Inl (Panic ''computed userset for tupleset without tuple'')
         | Some t \<Rightarrow> Inr (User_Userset t))
      else if cu_Object cu = ComputedUserset_TUPLE_OBJECT then
        (case tpl of
           Some t \<Rightarrow> Inr (Tuple_ObjectAndRelation t)
         | None \<Rightarrow> Inr (Start req))
      else Inr None)"

text \<open>
  Line 138 dereferences \<^verbatim>\<open>start\<close>, which panics when it is \<^verbatim>\<open>nil\<close>.
\<close>

definition checkComputedUserset ::
  "('r, 'd::{minus,one}) concurrentChecker \<Rightarrow> ctx \<Rightarrow> ('r, 'd) CheckRequest_ptr
     \<Rightarrow> ComputedUserset \<Rightarrow> RelationTuple_ptr option \<Rightarrow> panic + ReduceableCheckFunc" where
  "checkComputedUserset cc ctx req cu tpl =
     (case checkComputedUserset_start req cu tpl of
        Inl p \<Rightarrow> Inl p
      | Inr None \<Rightarrow> Inl NilPointerDereference
      | Inr (Some start) \<Rightarrow>
          (let targetOnr = \<lparr>Namespace = Namespace start, ObjectId = ObjectId start,
                            Relation = cu_Relation cu\<rparr>
           in if onrEqual (Goal req) targetOnr then Inr AlwaysMember
              else case cc_nsm cc ctx (Namespace start) (cu_Relation cu) True of
                     Some err \<Rightarrow>
                       if errors_As_ErrRelationNotFound err then Inr NotMember
                       else Inr (CheckError err)
                   | None \<Rightarrow>
                       Inr (dispatch cc \<lparr>Start = targetOnr, Goal = Goal req,
                                         AtRevision = AtRevision req,
                                         DepthRemaining = DepthRemaining req - 1\<rparr>)))"

subsection \<open>Tuple to userset\<close>

text \<open>
  The tuples of the iterator and the request of the closure are handed to
  \<^verbatim>\<open>checkComputedUserset\<close> as the pointers they are.
\<close>

fun checkTupleToUserset_loop ::
  "('r, 'd::{minus,one}) concurrentChecker \<Rightarrow> ctx \<Rightarrow> ('r, 'd) CheckRequest \<Rightarrow> ComputedUserset
     \<Rightarrow> RelationTuple list \<Rightarrow> ReduceableCheckFunc list \<Rightarrow> panic + ReduceableCheckFunc list"
  where
  "checkTupleToUserset_loop cc ctx req cu [] requestsToDispatch = Inr requestsToDispatch"
| "checkTupleToUserset_loop cc ctx req cu (tpl # it) requestsToDispatch =
     (case checkComputedUserset cc ctx (request_ptr req) cu (Some (tuple_ptr tpl)) of
        Inl p \<Rightarrow> Inl p
      | Inr f \<Rightarrow> checkTupleToUserset_loop cc ctx req cu it (requestsToDispatch @ [f]))"

definition checkTupleToUserset ::
  "('r, 'd::{minus,one}) concurrentChecker \<Rightarrow> ctx \<Rightarrow> ('r, 'd) CheckRequest \<Rightarrow> TupleToUserset
     \<Rightarrow> ReduceableCheckFunc" where
  "checkTupleToUserset cc ctx0 req ttu = (\<lambda>ctx.
     case cc_ds cc (Namespace (Start req)) (AtRevision req) (ObjectId (Start req))
            (Tupleset_Relation ttu) ctx of
       Inl err \<Rightarrow> Inr \<lparr>IsMember = False, Err = Some (NewCheckFailureErr err)\<rparr>
     | Inr (it, itErr) \<Rightarrow>
         (case checkTupleToUserset_loop cc ctx req (ttu_ComputedUserset ttu) it [] of
            Inl p \<Rightarrow> Inl p
          | Inr requestsToDispatch \<Rightarrow>
              (case itErr of
                 Some err \<Rightarrow> Inr \<lparr>IsMember = False, Err = Some (NewCheckFailureErr err)\<rparr>
               | None \<Rightarrow> Any ctx requestsToDispatch)))"

subsection \<open>Rewrites\<close>

text \<open>
  \<^verbatim>\<open>checkSetOperation\<close> builds the subchecks of all children when it is called, and
  only then returns the closure that hands them to the reducer.
  \<open>checkSetOperation_loop\<close> is its loop over \<^verbatim>\<open>so.Child\<close>; the type switch there has
  no default case, so a child of no listed type appends nothing.
\<close>

fun checkUsersetRewrite ::
  "('r, 'd::{minus,one}) concurrentChecker \<Rightarrow> ctx \<Rightarrow> ('r, 'd) CheckRequest \<Rightarrow> UsersetRewrite
     \<Rightarrow> panic + ReduceableCheckFunc"
and checkSetOperation ::
  "('r, 'd::{minus,one}) concurrentChecker \<Rightarrow> ctx \<Rightarrow> ('r, 'd) CheckRequest \<Rightarrow> SetOperation
     \<Rightarrow> Reducer \<Rightarrow> panic + ReduceableCheckFunc"
and checkSetOperation_loop ::
  "('r, 'd::{minus,one}) concurrentChecker \<Rightarrow> ctx \<Rightarrow> ('r, 'd) CheckRequest
     \<Rightarrow> SetOperation_Child list \<Rightarrow> ReduceableCheckFunc list
     \<Rightarrow> panic + ReduceableCheckFunc list"
where
  "checkUsersetRewrite cc ctx req (UsersetRewrite_Union so) =
     checkSetOperation cc ctx req so Any"
| "checkUsersetRewrite cc ctx req (UsersetRewrite_Intersection so) =
     checkSetOperation cc ctx req so All_reduce"
| "checkUsersetRewrite cc ctx req (UsersetRewrite_Exclusion so) =
     checkSetOperation cc ctx req so Difference"
| "checkUsersetRewrite cc ctx req UsersetRewrite_unrecognized = Inr AlwaysFail"
| "checkSetOperation cc ctx req (SetOperation cs) reducer =
     (case checkSetOperation_loop cc ctx req cs [] of
        Inl p \<Rightarrow> Inl p
      | Inr requests \<Rightarrow> Inr (\<lambda>ctx. reducer ctx requests))"
| "checkSetOperation_loop cc ctx req [] requests = Inr requests"
| "checkSetOperation_loop cc ctx req (SetOperation_Child_XThis # cs) requests =
     checkSetOperation_loop cc ctx req cs (requests @ [checkDirect cc ctx req])"
| "checkSetOperation_loop cc ctx req (SetOperation_Child_ComputedUserset cu # cs) requests =
     (case checkComputedUserset cc ctx (request_ptr req) cu None of
        Inl p \<Rightarrow> Inl p
      | Inr f \<Rightarrow> checkSetOperation_loop cc ctx req cs (requests @ [f]))"
| "checkSetOperation_loop cc ctx req (SetOperation_Child_UsersetRewrite usr # cs) requests =
     (case checkUsersetRewrite cc ctx req usr of
        Inl p \<Rightarrow> Inl p
      | Inr f \<Rightarrow> checkSetOperation_loop cc ctx req cs (requests @ [f]))"
| "checkSetOperation_loop cc ctx req (SetOperation_Child_TupleToUserset ttu # cs) requests =
     checkSetOperation_loop cc ctx req cs (requests @ [checkTupleToUserset cc ctx req ttu])"
| "checkSetOperation_loop cc ctx req (SetOperation_Child_unrecognized # cs) requests =
     checkSetOperation_loop cc ctx req cs requests"

subsection \<open>Entry\<close>

definition check ::
  "('r, 'd::{minus,one}) concurrentChecker \<Rightarrow> ctx \<Rightarrow> ('r, 'd) CheckRequest \<Rightarrow> v0_Relation
     \<Rightarrow> panic + ReduceableCheckFunc" where
  "check cc ctx req relation =
     (if onrEqual (Goal req) (Start req) then Inr AlwaysMember
      else case Relation_UsersetRewrite relation of
             None \<Rightarrow> Inr (checkDirect cc ctx req)
           | Some usr \<Rightarrow> checkUsersetRewrite cc ctx req usr)"

subsection \<open>Notions used to state the properties\<close>

text \<open>
  The last observed error of a sequence of results, in the order given: the last of the
  errors that are not \<^verbatim>\<open>nil\<close>, and \<^verbatim>\<open>nil\<close> when there is none.
\<close>

definition last_observed_error :: "CheckResult list \<Rightarrow> error option" where
  "last_observed_error results = last (None # filter (\<lambda>e. e \<noteq> None) (map Err results))"

text \<open>The results that a sequence of \<^verbatim>\<open>select\<close> outcomes received.\<close>

fun received_of :: "'a event list \<Rightarrow> 'a list" where
  "received_of [] = []"
| "received_of (Recv x # es) = x # received_of es"
| "received_of (CtxDone # es) = received_of es"

text \<open>
  A result received by \<^verbatim>\<open>Difference\<close> that triggers neither of its returns: a base
  result that is a member without error, a subtractor result that is a non-member
  without error.
\<close>

fun passes :: "received \<Rightarrow> bool" where
  "passes (baseChan base) \<longleftrightarrow> Err base = None \<and> IsMember base"
| "passes (othersChan sub) \<longleftrightarrow> Err sub = None \<and> \<not> IsMember sub"

text \<open>
  Two outcomes are equivalent when they are the same panic, or results with the same
  error and, when there is no error, the same membership: by the invariant of
  \<^verbatim>\<open>CheckResult\<close> the membership of a result with an error is not a decision.
\<close>

fun equivalent :: "panic + CheckResult \<Rightarrow> panic + CheckResult \<Rightarrow> bool" where
  "equivalent (Inr a) (Inr b) \<longleftrightarrow>
     Err a = Err b \<and> (Err a = None \<longrightarrow> IsMember a = IsMember b)"
| "equivalent (Inl p) (Inl q) \<longleftrightarrow> p = q"
| "equivalent a b \<longleftrightarrow> False"

subsection \<open>An example environment\<close>

text \<open>
  The schema and tuples of the scenarios of the specification: \<open>document:doc1#viewer\<close>
  holds the userset \<open>group:g1#member\<close> and the subject \<open>user:alice\<close>, and
  \<open>document:doc1#parent\<close> holds \<open>folder:f1\<close>. The relation \<open>archiver\<close> is not
  declared, and looking up \<open>broken\<close> fails. The dispatcher of the example finds
  \<open>user:bob\<close> in \<open>group:g1#member\<close> and nobody anywhere else.
\<close>

definition onr :: "string \<Rightarrow> string \<Rightarrow> string \<Rightarrow> ObjectAndRelation" where
  "onr ns oid rel = \<lparr>Namespace = ns, ObjectId = oid, Relation = rel\<rparr>"

definition example_d :: "ctx \<Rightarrow> (nat, 16 word) CheckRequest \<Rightarrow> CheckResult" where
  "example_d c q =
     (if Start q = onr ''group'' ''g1'' ''member'' \<and> Goal q = onr ''user'' ''bob'' ''...''
      then \<lparr>IsMember = True, Err = None\<rparr> else \<lparr>IsMember = False, Err = None\<rparr>)"

definition example_ds ::
  "string \<Rightarrow> nat \<Rightarrow> string \<Rightarrow> string \<Rightarrow> ctx \<Rightarrow> error + (RelationTuple list \<times> error option)"
  where
  "example_ds ns revision oid rel c =
     (if ns = ''document'' \<and> oid = ''doc1'' \<and> rel = ''viewer'' then
        Inr ([\<lparr>Tuple_ObjectAndRelation = onr ''document'' ''doc1'' ''viewer'',
               User_Userset = onr ''group'' ''g1'' ''member''\<rparr>,
              \<lparr>Tuple_ObjectAndRelation = onr ''document'' ''doc1'' ''viewer'',
               User_Userset = onr ''user'' ''alice'' ''...''\<rparr>], None)
      else if ns = ''document'' \<and> oid = ''doc1'' \<and> rel = ''parent'' then
        Inr ([\<lparr>Tuple_ObjectAndRelation = onr ''document'' ''doc1'' ''parent'',
               User_Userset = onr ''folder'' ''f1'' ''...''\<rparr>], None)
      else if rel = ''broken'' then Inl (ErrCause ''query failed'')
      else if rel = ''torn'' then
        Inr ([\<lparr>Tuple_ObjectAndRelation = onr ns oid ''torn'',
               User_Userset = onr ''user'' ''alice'' ''...''\<rparr>], Some (ErrCause ''read failed''))
      else Inr ([], None))"

definition example_tuple :: RelationTuple where
  "example_tuple =
     \<lparr>Tuple_ObjectAndRelation = onr ''document'' ''doc1'' ''parent'',
      User_Userset = onr ''folder'' ''f1'' ''...''\<rparr>"

definition example_nsm :: "ctx \<Rightarrow> string \<Rightarrow> string \<Rightarrow> bool \<Rightarrow> error option" where
  "example_nsm c ns rel allowEllipsis =
     (if rel = ''archiver'' then Some (ErrWrapped ''lookup'' ErrRelationNotFound)
      else if rel = ''broken'' then Some (ErrCause ''lookup failed'')
      else None)"

definition example_cc :: "(nat, 16 word) concurrentChecker" where
  "example_cc = \<lparr>cc_d = example_d, cc_ds = example_ds, cc_nsm = example_nsm\<rparr>"

definition example_req :: "string \<Rightarrow> string \<Rightarrow> 16 word \<Rightarrow> (nat, 16 word) CheckRequest" where
  "example_req rel user depth =
     \<lparr>Start = onr ''document'' ''doc1'' rel, Goal = onr ''user'' user ''...'',
      AtRevision = 7, DepthRemaining = depth\<rparr>"

section \<open>Properties\<close>

subsection \<open>Equality of ONRs and of results\<close>

lemma onrEqual_iff: "onrEqual (a::ObjectAndRelation) b \<longleftrightarrow> a = b"
  by (cases a; cases b) (auto simp: onrEqual_def)

lemma member_nil_iff:
  "r = \<lparr>IsMember = True, Err = None\<rparr> \<longleftrightarrow> Err r = None \<and> IsMember r"
  by (cases r) auto

subsection \<open>The order of arrival\<close>

text \<open>
  Whatever the scheduler chooses, the loop receives each result at most once, and all of
  them when its context is not cancelled; and every order of the results is the order
  of arrival under some choices.
\<close>

lemma mset_remove_nth:
  "j < length xs \<Longrightarrow> add_mset (xs ! j) (mset (take j xs @ drop (Suc j) xs)) = mset xs"
proof -
  assume "j < length xs"
  then have "xs = take j xs @ xs ! j # drop (Suc j) xs"
    by (rule id_take_nth_drop)
  then have "mset xs = mset (take j xs @ xs ! j # drop (Suc j) xs)"
    by simp
  then show ?thesis by simp
qed

lemma arrivals_shape:
  "arrivals s xs = map Recv (received_of (arrivals s xs))
                     @ (if CtxDone \<in> set (arrivals s xs) then [CtxDone] else [])"
  by (induction s xs rule: arrivals.induct) auto

lemma arrivals_received_subset:
  "mset (received_of (arrivals s xs)) \<subseteq># mset xs"
proof (induction s xs rule: arrivals.induct)
  case (4 k s x xs)
  let ?j = "k mod Suc (length xs)"
  have j: "?j < length (x # xs)" by simp
  have "add_mset ((x # xs) ! ?j)
          (mset (received_of (arrivals s (take ?j (x # xs) @ drop (Suc ?j) (x # xs)))))
        \<subseteq># add_mset ((x # xs) ! ?j) (mset (take ?j (x # xs) @ drop (Suc ?j) (x # xs)))"
    using 4 by simp
  also have "\<dots> = mset (x # xs)" using mset_remove_nth [OF j] .
  finally show ?case by simp
qed simp_all

lemma arrivals_received_all:
  "CtxDone \<notin> set (arrivals s xs) \<Longrightarrow> mset (received_of (arrivals s xs)) = mset xs"
proof (induction s xs rule: arrivals.induct)
  case (4 k s x xs)
  let ?j = "k mod Suc (length xs)"
  have j: "?j < length (x # xs)" by simp
  from 4 have "mset (received_of (arrivals s (take ?j (x # xs) @ drop (Suc ?j) (x # xs))))
        = mset (take ?j (x # xs) @ drop (Suc ?j) (x # xs))"
    by simp
  then have "mset (received_of (arrivals (Deliver k # s) (x # xs)))
        = add_mset ((x # xs) ! ?j) (mset (take ?j (x # xs) @ drop (Suc ?j) (x # xs)))"
    by simp
  also have "\<dots> = mset (x # xs)" using mset_remove_nth [OF j] .
  finally show ?case .
qed simp_all

lemma received_of_map_Recv: "received_of (map Recv ys) = ys"
  by (induction ys) auto

lemma CtxDone_notin_map_Recv: "CtxDone \<notin> set (map Recv ys)"
  by (induction ys) auto

lemma arrivals_all_perm:
  assumes "arrivals s xs = map Recv ys"
  shows "mset ys = mset xs"
proof -
  have "CtxDone \<notin> set (arrivals s xs)"
    unfolding assms by (rule CtxDone_notin_map_Recv)
  then have "mset (received_of (arrivals s xs)) = mset xs"
    by (rule arrivals_received_all)
  then show ?thesis unfolding assms received_of_map_Recv .
qed

lemma arrivals_reachable:
  "mset ys = mset xs \<Longrightarrow> \<exists>s. arrivals s xs = map Recv ys"
proof (induction ys arbitrary: xs)
  case Nil
  then show ?case by simp
next
  case (Cons y ys)
  then have "y \<in> set xs" by (metis list.set_intros(1) set_mset_mset)
  then obtain j where j: "j < length xs" "xs ! j = y" by (auto simp: in_set_conv_nth)
  then obtain x xs' where xs: "xs = x # xs'" by (cases xs) auto
  let ?rest = "take j xs @ drop (Suc j) xs"
  have "add_mset y (mset ?rest) = mset xs" using mset_remove_nth [OF j(1)] j(2) by simp
  with Cons.prems have "add_mset y (mset ys) = add_mset y (mset ?rest)" by simp
  then have "mset ys = mset ?rest" by (simp only: add_mset_add_mset_same_iff)
  from Cons.IH [OF this] obtain s where s: "arrivals s ?rest = map Recv ys" by blast
  have "j mod Suc (length xs') = j" using j(1) xs by simp
  then have "arrivals (Deliver j # s) xs = map Recv (y # ys)"
    using s j(2) xs by simp
  then show ?case by blast
qed

subsection \<open>The loops of the reducers\<close>

lemma Any_eq_loop:
  "go_requests (children ctx) requests = Inr results \<Longrightarrow>
   Any ctx requests = Inr (Any_loop None (arrivals (sched ctx) results))"
  by (cases requests) (auto simp: Any_def)

lemma Any_loop_prefix:
  "\<forall>p\<in>set pre. \<not> (Err p = None \<and> IsMember p) \<Longrightarrow>
   Any_loop e (map Recv pre @ es)
     = Any_loop (last (e # filter (\<lambda>e. e \<noteq> None) (map Err pre))) es"
proof (induction pre arbitrary: e)
  case Nil
  then show ?case by simp
next
  case (Cons p pre)
  then have IH: "\<And>e. Any_loop e (map Recv pre @ es)
     = Any_loop (last (e # filter (\<lambda>e. e \<noteq> None) (map Err pre))) es"
    by simp
  show ?case
  proof (cases "Err p")
    case None
    with Cons.prems have "\<not> IsMember p" by simp
    with None show ?thesis by (simp add: IH)
  next
    case (Some y)
    then show ?thesis by (simp add: IH)
  qed
qed

subsection \<open>Entry: the reflexive base case\<close>

text \<open>
  C8. For every ONR \<open>x\<close>, every depth \<open>d\<close> and every revision \<open>r\<close>, \<open>check\<close> on the
  request with \<open>Start = x\<close> and \<open>Goal = x\<close> returns the check that always sends
  \<open>{true, nil}\<close>, whatever the schema of the relation (and whatever the checker's
  collaborators are).
\<close>

theorem check_reflexive:
  "check cc ctx \<lparr>Start = x, Goal = x, AtRevision = r, DepthRemaining = d\<rparr> relation
     = Inr AlwaysMember
   \<and> AlwaysMember ctx' = Inr \<lparr>IsMember = True, Err = None\<rparr>"
  by (simp add: check_def onrEqual_def AlwaysMember_def)

theorem check_reflexive_witness:
  "check \<lparr>cc_d = \<lambda>c q. \<lparr>IsMember = False, Err = Some (ErrCause ''down'')\<rparr>,
          cc_ds = \<lambda>ns revision oid rel c. Inl (ErrCause ''down''),
          cc_nsm = \<lambda>c ns rel e. Some (ErrCause ''down'')\<rparr>
     Background
     \<lparr>Start = \<lparr>Namespace = ''document'', ObjectId = ''doc1'', Relation = ''view''\<rparr>,
      Goal = \<lparr>Namespace = ''document'', ObjectId = ''doc1'', Relation = ''view''\<rparr>,
      AtRevision = (7::nat), DepthRemaining = (0::16 word)\<rparr>
     \<lparr>Name = ''view'',
      Relation_UsersetRewrite = Some (UsersetRewrite_Exclusion (SetOperation []))\<rparr>
     = Inr AlwaysMember
   \<and> AlwaysMember Background = Inr \<lparr>IsMember = True, Err = None\<rparr>"
  by (rule check_reflexive)

subsection \<open>Computed userset\<close>

lemma checkComputedUserset_start_cases:
  "checkComputedUserset_start req cu tpl =
     (case cu_Object cu of
        ComputedUserset_TUPLE_USERSET_OBJECT \<Rightarrow>
          (case tpl of
             None \<Rightarrow> Inl (Panic ''computed userset for tupleset without tuple'')
           | Some t \<Rightarrow> Inr (User_Userset t))
      | ComputedUserset_TUPLE_OBJECT \<Rightarrow>
          (case tpl of
             Some t \<Rightarrow> Inr (Tuple_ObjectAndRelation t)
           | None \<Rightarrow> Inr (Start req))
      | ComputedUserset_Object_undeclared \<Rightarrow> Inr None)"
  by (simp add: checkComputedUserset_start_def split: ComputedUserset_Object.splits)

text \<open>
  C10, as the code has it. \<open>checkComputedUserset\<close> panics with its explicit message
  exactly when the selector is \<open>TUPLE_USERSET_OBJECT\<close> and there is no tuple. It
  dereferences a \<^verbatim>\<open>nil\<close> \<open>start\<close> exactly when the selector is neither declared value,
  or the pointer that the selector picks is \<^verbatim>\<open>nil\<close>: the userset of the tuple's user
  for \<open>TUPLE_USERSET_OBJECT\<close> with a tuple, the tuple's object for \<open>TUPLE_OBJECT\<close> with a
  tuple, the request's \<open>Start\<close> for \<open>TUPLE_OBJECT\<close> without a tuple. It panics in no other
  way, and in every call where the selector is declared and the pointer it picks is not
  \<^verbatim>\<open>nil\<close>, it returns a check, and that check sends a result under every context.
\<close>

theorem checkComputedUserset_panics:
  "(checkComputedUserset cc ctx req cu tpl
       = Inl (Panic ''computed userset for tupleset without tuple'')
      \<longleftrightarrow> cu_Object cu = ComputedUserset_TUPLE_USERSET_OBJECT \<and> tpl = None)
   \<and> (checkComputedUserset cc ctx req cu tpl = Inl NilPointerDereference
      \<longleftrightarrow> (cu_Object cu \<noteq> ComputedUserset_TUPLE_USERSET_OBJECT
            \<and> cu_Object cu \<noteq> ComputedUserset_TUPLE_OBJECT)
          \<or> (cu_Object cu = ComputedUserset_TUPLE_USERSET_OBJECT
               \<and> (\<exists>t. tpl = Some t \<and> User_Userset t = None))
          \<or> (cu_Object cu = ComputedUserset_TUPLE_OBJECT
               \<and> (\<exists>t. tpl = Some t \<and> Tuple_ObjectAndRelation t = None))
          \<or> (cu_Object cu = ComputedUserset_TUPLE_OBJECT \<and> tpl = None \<and> Start req = None))
   \<and> (\<forall>p. checkComputedUserset cc ctx req cu tpl = Inl p
         \<longrightarrow> p = Panic ''computed userset for tupleset without tuple''
             \<or> p = NilPointerDereference)
   \<and> ((cu_Object cu = ComputedUserset_TUPLE_USERSET_OBJECT
          \<and> (\<exists>t start. tpl = Some t \<and> User_Userset t = Some start))
        \<or> (cu_Object cu = ComputedUserset_TUPLE_OBJECT
          \<and> (\<exists>t start. tpl = Some t \<and> Tuple_ObjectAndRelation t = Some start))
        \<or> (cu_Object cu = ComputedUserset_TUPLE_OBJECT \<and> tpl = None
          \<and> (\<exists>start. Start req = Some start))
       \<longrightarrow> (\<exists>f. checkComputedUserset cc ctx req cu tpl = Inr f
              \<and> (\<forall>ctx'. \<exists>result. f ctx' = Inr result)))"
proof (intro conjI)
  note defs = checkComputedUserset_def checkComputedUserset_start_cases Let_def
  show "checkComputedUserset cc ctx req cu tpl
       = Inl (Panic ''computed userset for tupleset without tuple'')
      \<longleftrightarrow> cu_Object cu = ComputedUserset_TUPLE_USERSET_OBJECT \<and> tpl = None"
    by (auto simp: defs split: ComputedUserset_Object.splits option.splits if_splits)
  show "checkComputedUserset cc ctx req cu tpl = Inl NilPointerDereference
      \<longleftrightarrow> (cu_Object cu \<noteq> ComputedUserset_TUPLE_USERSET_OBJECT
            \<and> cu_Object cu \<noteq> ComputedUserset_TUPLE_OBJECT)
          \<or> (cu_Object cu = ComputedUserset_TUPLE_USERSET_OBJECT
               \<and> (\<exists>t. tpl = Some t \<and> User_Userset t = None))
          \<or> (cu_Object cu = ComputedUserset_TUPLE_OBJECT
               \<and> (\<exists>t. tpl = Some t \<and> Tuple_ObjectAndRelation t = None))
          \<or> (cu_Object cu = ComputedUserset_TUPLE_OBJECT \<and> tpl = None \<and> Start req = None)"
    by (auto simp: defs split: ComputedUserset_Object.splits option.splits if_splits)
  show "\<forall>p. checkComputedUserset cc ctx req cu tpl = Inl p
         \<longrightarrow> p = Panic ''computed userset for tupleset without tuple''
             \<or> p = NilPointerDereference"
    by (auto simp: defs split: ComputedUserset_Object.splits option.splits if_splits)
  show "(cu_Object cu = ComputedUserset_TUPLE_USERSET_OBJECT
          \<and> (\<exists>t start. tpl = Some t \<and> User_Userset t = Some start))
        \<or> (cu_Object cu = ComputedUserset_TUPLE_OBJECT
          \<and> (\<exists>t start. tpl = Some t \<and> Tuple_ObjectAndRelation t = Some start))
        \<or> (cu_Object cu = ComputedUserset_TUPLE_OBJECT \<and> tpl = None
          \<and> (\<exists>start. Start req = Some start))
       \<longrightarrow> (\<exists>f. checkComputedUserset cc ctx req cu tpl = Inr f
              \<and> (\<forall>ctx'. \<exists>result. f ctx' = Inr result))"
    by (auto simp: defs AlwaysMember_def NotMember_def CheckError_def dispatch_def
          split: option.splits)
qed

text \<open>
  The witness has the explicit panic, the undeclared selector, and three calls that do not
  panic: the tuple's userset, the tuple's object, and the request's \<open>Start\<close>.
\<close>

theorem checkComputedUserset_panics_witness:
  "checkComputedUserset example_cc Background (request_ptr (example_req ''view'' ''bob'' 3))
      \<lparr>cu_Object = ComputedUserset_TUPLE_USERSET_OBJECT, cu_Relation = ''viewer''\<rparr> None
     = Inl (Panic ''computed userset for tupleset without tuple'')
   \<and> checkComputedUserset example_cc Background (request_ptr (example_req ''view'' ''bob'' 3))
      \<lparr>cu_Object = ComputedUserset_Object_undeclared, cu_Relation = ''viewer''\<rparr>
      (Some (tuple_ptr example_tuple))
     = Inl NilPointerDereference
   \<and> (\<exists>f. checkComputedUserset example_cc Background
            (request_ptr (example_req ''view'' ''bob'' 3))
            \<lparr>cu_Object = ComputedUserset_TUPLE_USERSET_OBJECT, cu_Relation = ''viewer''\<rparr>
            (Some (tuple_ptr example_tuple)) = Inr f)
   \<and> (\<exists>f. checkComputedUserset example_cc Background
            (request_ptr (example_req ''view'' ''bob'' 3))
            \<lparr>cu_Object = ComputedUserset_TUPLE_OBJECT, cu_Relation = ''viewer''\<rparr>
            (Some (tuple_ptr example_tuple)) = Inr f)
   \<and> (\<exists>f. checkComputedUserset example_cc Background
            (request_ptr (example_req ''view'' ''bob'' 3))
            \<lparr>cu_Object = ComputedUserset_TUPLE_OBJECT, cu_Relation = ''viewer''\<rparr> None
          = Inr f)"
proof -
  let ?req = "request_ptr (example_req ''view'' ''bob'' 3)"
  let ?t = "Some (tuple_ptr example_tuple)"
  let ?U = "\<lparr>cu_Object = ComputedUserset_TUPLE_USERSET_OBJECT, cu_Relation = ''viewer''\<rparr>"
  let ?O = "\<lparr>cu_Object = ComputedUserset_TUPLE_OBJECT, cu_Relation = ''viewer''\<rparr>"
  let ?X = "\<lparr>cu_Object = ComputedUserset_Object_undeclared, cu_Relation = ''viewer''\<rparr>"
  have "checkComputedUserset example_cc Background ?req ?U None
          = Inl (Panic ''computed userset for tupleset without tuple'')"
    using checkComputedUserset_panics [of example_cc Background ?req ?U None,
        THEN conjunct1]
    by simp
  moreover have "checkComputedUserset example_cc Background ?req ?X ?t
          = Inl NilPointerDereference"
    using checkComputedUserset_panics [of example_cc Background ?req ?X ?t,
        THEN conjunct2, THEN conjunct1]
    by simp
  moreover have "\<exists>f. checkComputedUserset example_cc Background ?req ?U ?t = Inr f"
    using checkComputedUserset_panics [of example_cc Background ?req ?U ?t,
        THEN conjunct2, THEN conjunct2, THEN conjunct2]
    by (auto simp: tuple_ptr_def)
  moreover have "\<exists>f. checkComputedUserset example_cc Background ?req ?O ?t = Inr f"
    using checkComputedUserset_panics [of example_cc Background ?req ?O ?t,
        THEN conjunct2, THEN conjunct2, THEN conjunct2]
    by (auto simp: tuple_ptr_def)
  moreover have "\<exists>f. checkComputedUserset example_cc Background ?req ?O None = Inr f"
    using checkComputedUserset_panics [of example_cc Background ?req ?O None,
        THEN conjunct2, THEN conjunct2, THEN conjunct2]
    by (auto simp: request_ptr_def)
  ultimately show ?thesis by blast
qed

text \<open>
  The claim C10 as stated fails: with a declared selector, and a tuple where the selector
  wants one, the call still panics when the pointer that the selector picks is
  \<^verbatim>\<open>nil\<close>. The three calls are: \<open>TUPLE_USERSET_OBJECT\<close> with a tuple whose user has no
  userset, \<open>TUPLE_OBJECT\<close> with a tuple whose object is \<^verbatim>\<open>nil\<close>, and \<open>TUPLE_OBJECT\<close>
  without a tuple on a request whose \<open>Start\<close> is \<^verbatim>\<open>nil\<close>.
\<close>

theorem checkComputedUserset_nil_counterexample:
  "checkComputedUserset example_cc Background (request_ptr (example_req ''view'' ''bob'' 3))
      \<lparr>cu_Object = ComputedUserset_TUPLE_USERSET_OBJECT, cu_Relation = ''viewer''\<rparr>
      (Some \<lparr>Tuple_ObjectAndRelation = Some (onr ''document'' ''doc1'' ''parent''),
             User_Userset = None\<rparr>)
     = Inl NilPointerDereference
   \<and> checkComputedUserset example_cc Background (request_ptr (example_req ''view'' ''bob'' 3))
      \<lparr>cu_Object = ComputedUserset_TUPLE_OBJECT, cu_Relation = ''viewer''\<rparr>
      (Some \<lparr>Tuple_ObjectAndRelation = None,
             User_Userset = Some (onr ''folder'' ''f1'' ''...'')\<rparr>)
     = Inl NilPointerDereference
   \<and> checkComputedUserset example_cc Background
      \<lparr>Start = None, Goal = onr ''user'' ''bob'' ''...'', AtRevision = 7,
       DepthRemaining = 3\<rparr>
      \<lparr>cu_Object = ComputedUserset_TUPLE_OBJECT, cu_Relation = ''viewer''\<rparr> None
     = Inl NilPointerDereference"
  by (simp add: checkComputedUserset_def checkComputedUserset_start_def)

text \<open>
  C7. Let \<open>T\<close> be the target ONR, made of the namespace and object of the resolved
  \<open>start\<close> and of the relation of the computed userset. If \<open>T\<close> equals the goal, the
  result is the check that sends \<open>{true, nil}\<close>, and no request is dispatched. Otherwise
  the namespace manager is asked about \<open>T\<close>'s namespace and relation: a
  relation-not-found error gives the check that sends \<open>{false, nil}\<close>, any other error
  \<open>err\<close> the check that sends \<open>{false, err}\<close>, and no error the dispatch of the request
  with \<open>Start = T\<close>, the same goal and revision, and \<open>DepthRemaining - 1\<close>, whose result
  is the answer of the outer dispatcher.
\<close>

theorem checkComputedUserset_result:
  assumes "checkComputedUserset_start req cu tpl = Inr (Some start)"
    and "T = \<lparr>Namespace = Namespace start, ObjectId = ObjectId start,
               Relation = cu_Relation cu\<rparr>"
  shows "(T = Goal req \<longrightarrow> checkComputedUserset cc ctx req cu tpl = Inr AlwaysMember)
   \<and> (T \<noteq> Goal req \<longrightarrow>
        (\<forall>err. cc_nsm cc ctx (Namespace start) (cu_Relation cu) True = Some err \<longrightarrow>
           (errors_As_ErrRelationNotFound err \<longrightarrow>
              checkComputedUserset cc ctx req cu tpl = Inr NotMember)
           \<and> (\<not> errors_As_ErrRelationNotFound err \<longrightarrow>
              checkComputedUserset cc ctx req cu tpl = Inr (CheckError err)))
        \<and> (cc_nsm cc ctx (Namespace start) (cu_Relation cu) True = None \<longrightarrow>
             checkComputedUserset cc ctx req cu tpl
               = Inr (dispatch cc \<lparr>Start = T, Goal = Goal req, AtRevision = AtRevision req,
                                    DepthRemaining = DepthRemaining req - 1\<rparr>)))
   \<and> AlwaysMember ctx' = Inr \<lparr>IsMember = True, Err = None\<rparr>
   \<and> NotMember ctx' = Inr \<lparr>IsMember = False, Err = None\<rparr>
   \<and> CheckError err' ctx' = Inr \<lparr>IsMember = False, Err = Some err'\<rparr>
   \<and> dispatch cc q ctx' = Inr (cc_d cc ctx' q)"
proof -
  have run: "AlwaysMember ctx' = Inr \<lparr>IsMember = True, Err = None\<rparr>
     \<and> NotMember ctx' = Inr \<lparr>IsMember = False, Err = None\<rparr>
     \<and> CheckError err' ctx' = Inr \<lparr>IsMember = False, Err = Some err'\<rparr>
     \<and> dispatch cc q ctx' = Inr (cc_d cc ctx' q)"
    by (simp add: AlwaysMember_def NotMember_def CheckError_def dispatch_def)
  have eq: "onrEqual (Goal req) T \<longleftrightarrow> T = Goal req"
    by (auto simp: onrEqual_iff)
  have "checkComputedUserset cc ctx req cu tpl =
     (if T = Goal req then Inr AlwaysMember
      else case cc_nsm cc ctx (Namespace start) (cu_Relation cu) True of
             Some err \<Rightarrow>
               if errors_As_ErrRelationNotFound err then Inr NotMember
               else Inr (CheckError err)
           | None \<Rightarrow>
               Inr (dispatch cc \<lparr>Start = T, Goal = Goal req, AtRevision = AtRevision req,
                                 DepthRemaining = DepthRemaining req - 1\<rparr>))"
    unfolding eq [symmetric] unfolding assms(2) checkComputedUserset_def
    by (simp add: assms(1) Let_def)
  then have "(T = Goal req \<longrightarrow> checkComputedUserset cc ctx req cu tpl = Inr AlwaysMember)
   \<and> (T \<noteq> Goal req \<longrightarrow>
        (\<forall>err. cc_nsm cc ctx (Namespace start) (cu_Relation cu) True = Some err \<longrightarrow>
           (errors_As_ErrRelationNotFound err \<longrightarrow>
              checkComputedUserset cc ctx req cu tpl = Inr NotMember)
           \<and> (\<not> errors_As_ErrRelationNotFound err \<longrightarrow>
              checkComputedUserset cc ctx req cu tpl = Inr (CheckError err)))
        \<and> (cc_nsm cc ctx (Namespace start) (cu_Relation cu) True = None \<longrightarrow>
             checkComputedUserset cc ctx req cu tpl
               = Inr (dispatch cc \<lparr>Start = T, Goal = Goal req, AtRevision = AtRevision req,
                                    DepthRemaining = DepthRemaining req - 1\<rparr>)))"
    by simp
  with run show ?thesis by blast
qed

theorem checkComputedUserset_result_witness:
  "checkComputedUserset example_cc Background
      (request_ptr
         \<lparr>Start = onr ''document'' ''doc1'' ''view'', Goal = onr ''document'' ''doc1'' ''viewer'',
          AtRevision = 7, DepthRemaining = 3\<rparr>)
      \<lparr>cu_Object = ComputedUserset_TUPLE_OBJECT, cu_Relation = ''viewer''\<rparr> None
     = Inr AlwaysMember
   \<and> checkComputedUserset example_cc Background (request_ptr (example_req ''view'' ''bob'' 3))
      \<lparr>cu_Object = ComputedUserset_TUPLE_OBJECT, cu_Relation = ''archiver''\<rparr> None
     = Inr NotMember
   \<and> checkComputedUserset example_cc Background (request_ptr (example_req ''view'' ''bob'' 3))
      \<lparr>cu_Object = ComputedUserset_TUPLE_OBJECT, cu_Relation = ''broken''\<rparr> None
     = Inr (CheckError (ErrCause ''lookup failed''))
   \<and> checkComputedUserset example_cc Background (request_ptr (example_req ''view'' ''bob'' 3))
      \<lparr>cu_Object = ComputedUserset_TUPLE_OBJECT, cu_Relation = ''viewer''\<rparr> None
     = Inr (dispatch example_cc
              \<lparr>Start = onr ''document'' ''doc1'' ''viewer'', Goal = onr ''user'' ''bob'' ''...'',
               AtRevision = 7, DepthRemaining = 2\<rparr>)"
proof -
  have start: "checkComputedUserset_start (request_ptr req)
      \<lparr>cu_Object = ComputedUserset_TUPLE_OBJECT, cu_Relation = rel\<rparr> None
     = Inr (Some (Start req))" for req :: "(nat, 16 word) CheckRequest" and rel
    by (simp add: checkComputedUserset_start_def request_ptr_def)
  note r = checkComputedUserset_result [OF start refl, of _ _ example_cc Background]
  note defs = onr_def example_req_def example_cc_def example_nsm_def request_ptr_def
  have "checkComputedUserset example_cc Background
      (request_ptr
         \<lparr>Start = onr ''document'' ''doc1'' ''view'', Goal = onr ''document'' ''doc1'' ''viewer'',
          AtRevision = 7, DepthRemaining = 3\<rparr>)
      \<lparr>cu_Object = ComputedUserset_TUPLE_OBJECT, cu_Relation = ''viewer''\<rparr> None
     = Inr AlwaysMember"
    using r [of "\<lparr>Start = onr ''document'' ''doc1'' ''view'',
                  Goal = onr ''document'' ''doc1'' ''viewer'',
                  AtRevision = 7, DepthRemaining = 3\<rparr>" "''viewer''"]
    by (simp add: defs)
  moreover have "checkComputedUserset example_cc Background
      (request_ptr (example_req ''view'' ''bob'' 3))
      \<lparr>cu_Object = ComputedUserset_TUPLE_OBJECT, cu_Relation = ''archiver''\<rparr> None
     = Inr NotMember"
    using r [of "example_req ''view'' ''bob'' 3" "''archiver''"]
    by (simp add: defs)
  moreover have "checkComputedUserset example_cc Background
      (request_ptr (example_req ''view'' ''bob'' 3))
      \<lparr>cu_Object = ComputedUserset_TUPLE_OBJECT, cu_Relation = ''broken''\<rparr> None
     = Inr (CheckError (ErrCause ''lookup failed''))"
    using r [of "example_req ''view'' ''bob'' 3" "''broken''"]
    by (simp add: defs)
  moreover have "checkComputedUserset example_cc Background
      (request_ptr (example_req ''view'' ''bob'' 3))
      \<lparr>cu_Object = ComputedUserset_TUPLE_OBJECT, cu_Relation = ''viewer''\<rparr> None
     = Inr (dispatch example_cc
              \<lparr>Start = onr ''document'' ''doc1'' ''viewer'', Goal = onr ''user'' ''bob'' ''...'',
               AtRevision = 7, DepthRemaining = 2\<rparr>)"
    using r [of "example_req ''view'' ''bob'' 3" "''viewer''"]
    by (simp add: defs)
  ultimately show ?thesis by blast
qed

subsection \<open>Any\<close>

text \<open>
  C2. \<open>Any\<close> of no subcheck is \<open>{false, nil}\<close>. Otherwise, in the order of arrival of
  the results: the first result that is \<open>{true, nil}\<close> is the result of \<open>Any\<close>, whatever
  arrived before it (results with errors included) and whatever would arrive after it;
  and when all results arrive and no subcheck yields \<open>{true, nil}\<close>, the result is
  \<open>{false, e}\<close> with \<open>e\<close> the last observed error, \<^verbatim>\<open>nil\<close> if no result had one. The
  results that arrive are then the results of the subchecks, in some order.
\<close>

theorem Any_reducer:
  "Any ctx [] = Inr \<lparr>IsMember = False, Err = None\<rparr>
   \<and> (\<forall>results pre r post.
        go_requests (children ctx) requests = Inr results
        \<and> arrivals (sched ctx) results = map Recv pre @ Recv r # post
        \<and> (\<forall>p\<in>set pre. p \<noteq> \<lparr>IsMember = True, Err = None\<rparr>)
        \<and> r = \<lparr>IsMember = True, Err = None\<rparr>
        \<longrightarrow> Any ctx requests = Inr r)
   \<and> (\<forall>results as.
        go_requests (children ctx) requests = Inr results
        \<and> arrivals (sched ctx) results = map Recv as
        \<longrightarrow> mset as = mset results
            \<and> ((\<forall>p\<in>set results. p \<noteq> \<lparr>IsMember = True, Err = None\<rparr>)
                 \<longrightarrow> Any ctx requests
                       = Inr \<lparr>IsMember = False, Err = last_observed_error as\<rparr>))"
proof (intro conjI allI impI)
  show "Any ctx [] = Inr \<lparr>IsMember = False, Err = None\<rparr>"
    by (simp add: Any_def)
next
  fix results pre r post
  assume h: "go_requests (children ctx) requests = Inr results
        \<and> arrivals (sched ctx) results = map Recv pre @ Recv r # post
        \<and> (\<forall>p\<in>set pre. p \<noteq> \<lparr>IsMember = True, Err = None\<rparr>)
        \<and> r = \<lparr>IsMember = True, Err = None\<rparr>"
  then have g: "go_requests (children ctx) requests = Inr results"
    and a: "arrivals (sched ctx) results = map Recv pre @ Recv r # post"
    and r: "Err r = None \<and> IsMember r"
    by (simp_all add: member_nil_iff)
  from h have pre: "\<forall>p\<in>set pre. \<not> (Err p = None \<and> IsMember p)"
    by (simp add: member_nil_iff)
  have l: "Any_loop None (map Recv pre @ Recv r # post) = r"
    unfolding Any_loop_prefix [OF pre] using r by simp
  show "Any ctx requests = Inr r"
    unfolding Any_eq_loop [OF g] a l ..
next
  fix results as
  assume h: "go_requests (children ctx) requests = Inr results
        \<and> arrivals (sched ctx) results = map Recv as"
  then have "arrivals (sched ctx) results = map Recv as" ..
  then show "mset as = mset results" by (rule arrivals_all_perm)
next
  fix results as
  assume h: "go_requests (children ctx) requests = Inr results
        \<and> arrivals (sched ctx) results = map Recv as"
    and none: "\<forall>p\<in>set results. p \<noteq> \<lparr>IsMember = True, Err = None\<rparr>"
  from h have g: "go_requests (children ctx) requests = Inr results"
    and a: "arrivals (sched ctx) results = map Recv as"
    by blast+
  from a have "mset as = mset results" by (rule arrivals_all_perm)
  then have "set as = set results" by (rule mset_eq_setD)
  with none have pre: "\<forall>p\<in>set as. \<not> (Err p = None \<and> IsMember p)"
    by (simp add: member_nil_iff)
  have "Any_loop None (map Recv as @ [])
          = \<lparr>IsMember = False, Err = last_observed_error as\<rparr>"
    unfolding Any_loop_prefix [OF pre] by (simp add: last_observed_error_def)
  then have l: "Any_loop None (map Recv as)
          = \<lparr>IsMember = False, Err = last_observed_error as\<rparr>"
    by simp
  show "Any ctx requests = Inr \<lparr>IsMember = False, Err = last_observed_error as\<rparr>"
    unfolding Any_eq_loop [OF g] a l ..
qed

text \<open>
  In the witness the error arrives first and does not end the reducer: the member that
  arrives after it wins. Without a member, the later of the two errors is returned.
\<close>

theorem Any_reducer_witness:
  "Any Background [CheckError (ErrCause ''a''), AlwaysMember, NotMember]
     = Inr \<lparr>IsMember = True, Err = None\<rparr>
   \<and> Any (Ctx [Deliver (Suc 0)] []) [CheckError (ErrCause ''a''), CheckError (ErrCause ''b''), NotMember]
     = Inr \<lparr>IsMember = False, Err = Some (ErrCause ''a'')\<rparr>"
proof -
  let ?a = "\<lparr>IsMember = False, Err = Some (ErrCause ''a'')\<rparr>"
  let ?b = "\<lparr>IsMember = False, Err = Some (ErrCause ''b'')\<rparr>"
  let ?t = "\<lparr>IsMember = True, Err = None\<rparr>"
  let ?f = "\<lparr>IsMember = False, Err = None\<rparr>"
  have 1: "go_requests (children Background)
               [CheckError (ErrCause ''a''), AlwaysMember, NotMember] = Inr [?a, ?t, ?f]
        \<and> arrivals (sched Background) [?a, ?t, ?f] = map Recv [?a] @ Recv ?t # [Recv ?f]
        \<and> (\<forall>p\<in>set [?a]. p \<noteq> ?t)
        \<and> ?t = ?t"
    by (simp add: Background_def CheckError_def AlwaysMember_def NotMember_def)
  have 2: "go_requests (children (Ctx [Deliver (Suc 0)] []))
               [CheckError (ErrCause ''a''), CheckError (ErrCause ''b''), NotMember]
             = Inr [?a, ?b, ?f]
        \<and> arrivals (sched (Ctx [Deliver (Suc 0)] [])) [?a, ?b, ?f] = map Recv [?b, ?a, ?f]"
    by (simp add: Background_def CheckError_def NotMember_def)
  have 3: "\<forall>p\<in>set [?a, ?b, ?f]. p \<noteq> ?t" by simp
  have "last_observed_error [?b, ?a, ?f] = Some (ErrCause ''a'')"
    by (simp add: last_observed_error_def)
  with Any_reducer [THEN conjunct2, THEN conjunct1, rule_format, OF 1]
    Any_reducer [THEN conjunct2, THEN conjunct2, rule_format, OF 2, THEN conjunct2,
      THEN mp, OF 3]
  show ?thesis by simp
qed

subsection \<open>All\<close>

lemma go_requests_length:
  "go_requests cs requests = Inr results \<Longrightarrow> length results = length requests"
  by (induction cs requests arbitrary: results rule: go_requests.induct)
     (auto split: sum.splits)

lemma All_eq_loop:
  "requests \<noteq> [] \<Longrightarrow> go_requests (children ctx) requests = Inr results \<Longrightarrow>
   All_reduce ctx requests = Inr (All_loop (arrivals (sched ctx) results))"
  by (simp add: All_reduce_def)

lemma All_loop_prefix:
  "\<forall>p\<in>set pre. p = \<lparr>IsMember = True, Err = None\<rparr> \<Longrightarrow>
   All_loop (map Recv pre @ es) = All_loop es"
  by (induction pre) auto

text \<open>
  C4. \<open>All\<close> of no subcheck is \<open>{false, nil}\<close>. In the order of arrival, the first result
  that is a non-member or carries an error is the result of \<open>All\<close>, unchanged, whatever
  would arrive after it. When all results arrive and all are members without error, the
  result is \<open>{true, nil}\<close>.
\<close>

theorem All_reducer:
  "All_reduce ctx [] = Inr \<lparr>IsMember = False, Err = None\<rparr>
   \<and> (\<forall>results pre r post.
        go_requests (children ctx) requests = Inr results
        \<and> arrivals (sched ctx) results = map Recv pre @ Recv r # post
        \<and> (\<forall>p\<in>set pre. p = \<lparr>IsMember = True, Err = None\<rparr>)
        \<and> (Err r \<noteq> None \<or> \<not> IsMember r)
        \<longrightarrow> All_reduce ctx requests = Inr r)
   \<and> (\<forall>results.
        requests \<noteq> []
        \<and> go_requests (children ctx) requests = Inr results
        \<and> CtxDone \<notin> set (arrivals (sched ctx) results)
        \<and> (\<forall>r\<in>set results. r = \<lparr>IsMember = True, Err = None\<rparr>)
        \<longrightarrow> All_reduce ctx requests = Inr \<lparr>IsMember = True, Err = None\<rparr>)"
proof (intro conjI allI impI)
  show "All_reduce ctx [] = Inr \<lparr>IsMember = False, Err = None\<rparr>"
    by (simp add: All_reduce_def)
next
  fix results pre r post
  assume h: "go_requests (children ctx) requests = Inr results
        \<and> arrivals (sched ctx) results = map Recv pre @ Recv r # post
        \<and> (\<forall>p\<in>set pre. p = \<lparr>IsMember = True, Err = None\<rparr>)
        \<and> (Err r \<noteq> None \<or> \<not> IsMember r)"
  then have g: "go_requests (children ctx) requests = Inr results"
    and a: "arrivals (sched ctx) results = map Recv pre @ Recv r # post"
    and r: "Err r \<noteq> None \<or> \<not> IsMember r"
    by blast+
  from h have pre: "\<forall>p\<in>set pre. p = \<lparr>IsMember = True, Err = None\<rparr>"
    by blast
  have "results \<noteq> []" using a by (cases results) auto
  with go_requests_length [OF g] have ne: "requests \<noteq> []" by auto
  have l: "All_loop (map Recv pre @ Recv r # post) = r"
    unfolding All_loop_prefix [OF pre] using r by auto
  show "All_reduce ctx requests = Inr r"
    unfolding All_eq_loop [OF ne g] a l ..
next
  fix results
  assume h: "requests \<noteq> []
        \<and> go_requests (children ctx) requests = Inr results
        \<and> CtxDone \<notin> set (arrivals (sched ctx) results)
        \<and> (\<forall>r\<in>set results. r = \<lparr>IsMember = True, Err = None\<rparr>)"
  then have ne: "requests \<noteq> []"
    and g: "go_requests (children ctx) requests = Inr results"
    and c: "CtxDone \<notin> set (arrivals (sched ctx) results)"
    and good: "\<forall>r\<in>set results. r = \<lparr>IsMember = True, Err = None\<rparr>"
    by blast+
  let ?as = "received_of (arrivals (sched ctx) results)"
  have a: "arrivals (sched ctx) results = map Recv ?as @ []"
    using arrivals_shape [of "sched ctx" results] c by simp
  have "set ?as = set results"
    using arrivals_received_all [OF c] by (rule mset_eq_setD)
  with good have pre: "\<forall>p\<in>set ?as. p = \<lparr>IsMember = True, Err = None\<rparr>"
    by blast
  have "All_loop (map Recv ?as @ []) = \<lparr>IsMember = True, Err = None\<rparr>"
    unfolding All_loop_prefix [OF pre] by simp
  then have l: "All_loop (arrivals (sched ctx) results) = \<lparr>IsMember = True, Err = None\<rparr>"
    using a by simp
  show "All_reduce ctx requests = Inr \<lparr>IsMember = True, Err = None\<rparr>"
    unfolding All_eq_loop [OF ne g] l ..
qed

theorem All_reducer_witness:
  "All_reduce (Ctx [Deliver (Suc 0)] []) [AlwaysMember, CheckError (ErrCause ''a''), NotMember]
     = Inr \<lparr>IsMember = False, Err = Some (ErrCause ''a'')\<rparr>
   \<and> All_reduce Background [AlwaysMember, AlwaysMember]
     = Inr \<lparr>IsMember = True, Err = None\<rparr>"
proof -
  let ?a = "\<lparr>IsMember = False, Err = Some (ErrCause ''a'')\<rparr>"
  let ?t = "\<lparr>IsMember = True, Err = None\<rparr>"
  let ?f = "\<lparr>IsMember = False, Err = None\<rparr>"
  have 1: "go_requests (children (Ctx [Deliver (Suc 0)] []))
               [AlwaysMember, CheckError (ErrCause ''a''), NotMember] = Inr [?t, ?a, ?f]
        \<and> arrivals (sched (Ctx [Deliver (Suc 0)] [])) [?t, ?a, ?f]
             = map Recv [] @ Recv ?a # [Recv ?t, Recv ?f]
        \<and> (\<forall>p\<in>set []. p = ?t)
        \<and> (Err ?a \<noteq> None \<or> \<not> IsMember ?a)"
    by (simp add: Background_def CheckError_def AlwaysMember_def NotMember_def)
  have 2: "[AlwaysMember, AlwaysMember] \<noteq> []
        \<and> go_requests (children Background) [AlwaysMember, AlwaysMember] = Inr [?t, ?t]
        \<and> CtxDone \<notin> set (arrivals (sched Background) [?t, ?t])
        \<and> (\<forall>r\<in>set [?t, ?t]. r = ?t)"
    by (simp add: Background_def AlwaysMember_def)
  from All_reducer [THEN conjunct2, THEN conjunct1, rule_format, OF 1]
    All_reducer [THEN conjunct2, THEN conjunct2, rule_format, OF 2]
  show ?thesis by simp
qed

subsection \<open>Difference\<close>

lemma Difference_eq_loop:
  "go_requests (children ctx) requests = Inr (base # subs) \<Longrightarrow>
   Difference ctx requests
     = Inr (Difference_loop (arrivals (sched ctx) (baseChan base # map othersChan subs)))"
  by (cases requests) (auto simp: Difference_def split: sum.splits)

lemma Difference_loop_prefix:
  "\<forall>e\<in>set pre. passes e \<Longrightarrow> Difference_loop (map Recv pre @ es) = Difference_loop es"
proof (induction pre)
  case Nil
  show ?case by simp
next
  case (Cons e pre)
  then have "passes e" and IH: "Difference_loop (map Recv pre @ es) = Difference_loop es"
    by simp_all
  then show ?case by (cases e) simp_all
qed

lemma Difference_loop_true_iff:
  "Difference_loop es = \<lparr>IsMember = True, Err = None\<rparr>
     \<longleftrightarrow> CtxDone \<notin> set es \<and> (\<forall>x\<in>set (received_of es). passes x)"
proof (induction es rule: Difference_loop.induct)
  case 1
  show ?case by simp
next
  case (2 base es)
  show ?case
  proof (cases "Err base \<noteq> None \<or> \<not> IsMember base")
    case True
    then have "base \<noteq> \<lparr>IsMember = True, Err = None\<rparr>" by (cases base) auto
    with True show ?thesis by auto
  next
    case False
    with 2 show ?thesis by simp
  qed
next
  case (3 sub es)
  show ?case
  proof (cases "Err sub \<noteq> None \<or> IsMember sub")
    case True
    then show ?thesis by auto
  next
    case False
    with 3 show ?thesis by simp
  qed
next
  case (4 es)
  show ?case by simp
qed

lemma passes_baseChan_iff: "passes (baseChan b) \<longleftrightarrow> b = \<lparr>IsMember = True, Err = None\<rparr>"
  by (cases b) auto

lemma passes_othersChan_iff: "passes (othersChan s) \<longleftrightarrow> s = \<lparr>IsMember = False, Err = None\<rparr>"
  by (cases s) auto

text \<open>
  C3. For a non-empty list of subchecks, with \<open>base\<close> the result of the first one and
  \<open>subs\<close> the results of the others, and in the order in which the results arrive:
  when the first result to trigger a return is the base result, because it is a
  non-member or carries an error, \<open>Difference\<close> returns it unchanged; when it is a
  subtractor result, because it is a member or carries an error, \<open>Difference\<close> returns
  \<open>{false, sub.Err}\<close>, whether or not the base result arrived before it. \<open>Difference\<close>
  returns \<open>{true, nil}\<close> exactly when its context is not cancelled, the base result is
  \<open>{true, nil}\<close> and every subtractor result is \<open>{false, nil}\<close>, and then it has received
  all the results.
\<close>

theorem Difference_reducer:
  assumes "requests = req0 # others"
    and "req0 (case children ctx of [] \<Rightarrow> Background | childCtx # _ \<Rightarrow> childCtx) = Inr base"
    and "go_requests (tl (children ctx)) others = Inr subs"
  shows "(\<forall>pre post.
            arrivals (sched ctx) (baseChan base # map othersChan subs)
              = map Recv pre @ Recv (baseChan base) # post
            \<and> (\<forall>e\<in>set pre. passes e)
            \<and> (Err base \<noteq> None \<or> \<not> IsMember base)
            \<longrightarrow> Difference ctx requests = Inr base)
     \<and> (\<forall>pre sub post.
            arrivals (sched ctx) (baseChan base # map othersChan subs)
              = map Recv pre @ Recv (othersChan sub) # post
            \<and> (\<forall>e\<in>set pre. passes e)
            \<and> (Err sub \<noteq> None \<or> IsMember sub)
            \<longrightarrow> Difference ctx requests = Inr \<lparr>IsMember = False, Err = Err sub\<rparr>)
     \<and> (Difference ctx requests = Inr \<lparr>IsMember = True, Err = None\<rparr>
          \<longleftrightarrow> CtxDone \<notin> set (arrivals (sched ctx) (baseChan base # map othersChan subs))
              \<and> base = \<lparr>IsMember = True, Err = None\<rparr>
              \<and> (\<forall>sub\<in>set subs. sub = \<lparr>IsMember = False, Err = None\<rparr>))
     \<and> (Difference ctx requests = Inr \<lparr>IsMember = True, Err = None\<rparr>
          \<longrightarrow> length (received_of (arrivals (sched ctx) (baseChan base # map othersChan subs)))
                = length requests)"
proof -
  let ?xs = "baseChan base # map othersChan subs"
  let ?es = "arrivals (sched ctx) ?xs"
  have g: "go_requests (children ctx) requests = Inr (base # subs)"
    using assms by simp
  note D = Difference_eq_loop [OF g]
  have len: "length ?xs = length requests"
    using go_requests_length [OF g] by simp
  have 1: "Difference ctx requests = Inr base"
    if "?es = map Recv pre @ Recv (baseChan base) # post \<and> (\<forall>e\<in>set pre. passes e)
         \<and> (Err base \<noteq> None \<or> \<not> IsMember base)" for pre post
  proof -
    from that have a: "?es = map Recv pre @ Recv (baseChan base) # post"
      and pre: "\<forall>e\<in>set pre. passes e" and b: "Err base \<noteq> None \<or> \<not> IsMember base"
      by blast+
    have "Difference_loop (map Recv pre @ Recv (baseChan base) # post) = base"
      unfolding Difference_loop_prefix [OF pre] using b by auto
    then show ?thesis unfolding D a by simp
  qed
  have 2: "Difference ctx requests = Inr \<lparr>IsMember = False, Err = Err sub\<rparr>"
    if "?es = map Recv pre @ Recv (othersChan sub) # post \<and> (\<forall>e\<in>set pre. passes e)
         \<and> (Err sub \<noteq> None \<or> IsMember sub)" for pre sub post
  proof -
    from that have a: "?es = map Recv pre @ Recv (othersChan sub) # post"
      and pre: "\<forall>e\<in>set pre. passes e" and b: "Err sub \<noteq> None \<or> IsMember sub"
      by blast+
    have "Difference_loop (map Recv pre @ Recv (othersChan sub) # post)
            = \<lparr>IsMember = False, Err = Err sub\<rparr>"
      unfolding Difference_loop_prefix [OF pre] using b by auto
    then show ?thesis unfolding D a by simp
  qed
  have 3: "Difference ctx requests = Inr \<lparr>IsMember = True, Err = None\<rparr>
          \<longleftrightarrow> CtxDone \<notin> set ?es \<and> base = \<lparr>IsMember = True, Err = None\<rparr>
              \<and> (\<forall>sub\<in>set subs. sub = \<lparr>IsMember = False, Err = None\<rparr>)"
  proof (cases "CtxDone \<in> set ?es")
    case True
    then show ?thesis unfolding D by (simp add: Difference_loop_true_iff)
  next
    case False
    then have "mset (received_of ?es) = mset ?xs" by (rule arrivals_received_all)
    then have "set (received_of ?es) = set ?xs" by (rule mset_eq_setD)
    then have "(\<forall>x\<in>set (received_of ?es). passes x)
       \<longleftrightarrow> passes (baseChan base) \<and> (\<forall>sub\<in>set subs. passes (othersChan sub))"
      by simp
    then show ?thesis
      unfolding D passes_baseChan_iff passes_othersChan_iff using False
      by (simp add: Difference_loop_true_iff)
  qed
  have 4: "length (received_of ?es) = length requests"
    if "Difference ctx requests = Inr \<lparr>IsMember = True, Err = None\<rparr>"
  proof -
    from that 3 have "CtxDone \<notin> set ?es" by blast
    then have "mset (received_of ?es) = mset ?xs" by (rule arrivals_received_all)
    then have "length (received_of ?es) = length ?xs" by (rule mset_eq_length)
    with len show ?thesis by simp
  qed
  from 1 2 3 4 show ?thesis by blast
qed


theorem Difference_reducer_witness:
  "Difference Background [NotMember, AlwaysMember] = Inr \<lparr>IsMember = False, Err = None\<rparr>
   \<and> Difference (Ctx [Deliver (Suc 0)] []) [AlwaysMember, CheckError (ErrCause ''a'')]
       = Inr \<lparr>IsMember = False, Err = Some (ErrCause ''a'')\<rparr>
   \<and> Difference Background [AlwaysMember, NotMember] = Inr \<lparr>IsMember = True, Err = None\<rparr>"
proof -
  let ?a = "\<lparr>IsMember = False, Err = Some (ErrCause ''a'')\<rparr>"
  let ?t = "\<lparr>IsMember = True, Err = None\<rparr>"
  let ?f = "\<lparr>IsMember = False, Err = None\<rparr>"
  let ?c = "Ctx [Deliver (Suc 0)] []"
  have b1: "NotMember (case children Background of [] \<Rightarrow> Background | childCtx # _ \<Rightarrow> childCtx)
              = Inr ?f"
    and s1: "go_requests (tl (children Background)) [AlwaysMember] = Inr [?t]"
    and a1: "arrivals (sched Background) (baseChan ?f # map othersChan [?t])
               = map Recv [] @ Recv (baseChan ?f) # [Recv (othersChan ?t)]
             \<and> (\<forall>e\<in>set []. passes e) \<and> (Err ?f \<noteq> None \<or> \<not> IsMember ?f)"
    by (simp_all add: Background_def NotMember_def AlwaysMember_def)
  have b2: "AlwaysMember (case children ?c of [] \<Rightarrow> Background | childCtx # _ \<Rightarrow> childCtx)
              = Inr ?t"
    and s2: "go_requests (tl (children ?c)) [CheckError (ErrCause ''a'')] = Inr [?a]"
    and a2: "arrivals (sched ?c) (baseChan ?t # map othersChan [?a])
               = map Recv [] @ Recv (othersChan ?a) # [Recv (baseChan ?t)]
             \<and> (\<forall>e\<in>set []. passes e) \<and> (Err ?a \<noteq> None \<or> IsMember ?a)"
    by (simp_all add: Background_def CheckError_def AlwaysMember_def)
  have b3: "AlwaysMember (case children Background of [] \<Rightarrow> Background | childCtx # _ \<Rightarrow> childCtx)
              = Inr ?t"
    and s3: "go_requests (tl (children Background)) [NotMember] = Inr [?f]"
    and a3: "CtxDone \<notin> set (arrivals (sched Background) (baseChan ?t # map othersChan [?f]))
             \<and> ?t = ?t \<and> (\<forall>sub\<in>set [?f]. sub = ?f)"
    by (simp_all add: Background_def NotMember_def AlwaysMember_def)
  from Difference_reducer [of "[NotMember, AlwaysMember]" NotMember "[AlwaysMember]"
        Background ?f "[?t]", OF refl b1 s1, THEN conjunct1, rule_format, OF a1]
    Difference_reducer [of "[AlwaysMember, CheckError (ErrCause ''a'')]" AlwaysMember
        "[CheckError (ErrCause ''a'')]" ?c ?t "[?a]", OF refl b2 s2,
        THEN conjunct2, THEN conjunct1, rule_format, OF a2]
    Difference_reducer [of "[AlwaysMember, NotMember]" AlwaysMember "[NotMember]"
        Background ?t "[?f]", OF refl b3 s3, THEN conjunct2, THEN conjunct2, THEN conjunct1,
        THEN iffD2, OF a3]
  show ?thesis by simp
qed

subsection \<open>Identity laws\<close>

lemma arrivals_single: "take 1 s \<noteq> [Cancel] \<Longrightarrow> arrivals s [r] = [Recv r]"
proof (cases s)
  case Nil
  then show ?thesis by simp
next
  case (Cons c s')
  assume "take 1 s \<noteq> [Cancel]"
  with Cons obtain k where "c = Deliver k" by (cases c) auto
  with Cons show ?thesis by simp
qed

text \<open>
  C9. \<open>Any\<close> and \<open>All\<close> of no subcheck are \<open>{false, nil}\<close>. For a single subcheck \<open>x\<close>,
  whose result is received (the context is not seen cancelled first): \<open>All [x]\<close> and
  \<open>Difference [x]\<close> are the outcome of \<open>x\<close>, and \<open>Any [x]\<close> is equivalent to it: the
  same error and, without error, the same membership. \<open>Any [x]\<close> is equal to it when the
  result of \<open>x\<close> is no member with an error, which the invariant of \<^verbatim>\<open>CheckResult\<close>
  excludes.
\<close>

theorem reducer_identities:
  "Any ctx [] = Inr \<lparr>IsMember = False, Err = None\<rparr>
   \<and> All_reduce ctx [] = Inr \<lparr>IsMember = False, Err = None\<rparr>
   \<and> (take 1 (sched ctx) \<noteq> [Cancel] \<longrightarrow>
        All_reduce ctx [x] = x (case children ctx of [] \<Rightarrow> Background | childCtx # _ \<Rightarrow> childCtx)
        \<and> Difference ctx [x]
            = x (case children ctx of [] \<Rightarrow> Background | childCtx # _ \<Rightarrow> childCtx)
        \<and> equivalent (Any ctx [x])
            (x (case children ctx of [] \<Rightarrow> Background | childCtx # _ \<Rightarrow> childCtx))
        \<and> ((\<forall>r. x (case children ctx of [] \<Rightarrow> Background | childCtx # _ \<Rightarrow> childCtx) = Inr r
                \<longrightarrow> Err r = None \<or> \<not> IsMember r)
             \<longrightarrow> Any ctx [x]
                  = x (case children ctx of [] \<Rightarrow> Background | childCtx # _ \<Rightarrow> childCtx)))"
proof (intro conjI impI)
  let ?c = "case children ctx of [] \<Rightarrow> Background | childCtx # _ \<Rightarrow> childCtx"
  show "Any ctx [] = Inr \<lparr>IsMember = False, Err = None\<rparr>" by (simp add: Any_def)
  show "All_reduce ctx [] = Inr \<lparr>IsMember = False, Err = None\<rparr>" by (simp add: All_reduce_def)
  assume nc: "take 1 (sched ctx) \<noteq> [Cancel]"
  note a = arrivals_single [OF nc]
  show "All_reduce ctx [x] = x ?c"
    by (cases "x ?c") (auto simp: All_reduce_def a)
  show "Difference ctx [x] = x ?c"
    by (cases "x ?c") (auto simp: Difference_def a)
  show "equivalent (Any ctx [x]) (x ?c)"
    by (cases "x ?c") (auto simp: Any_def a)
  assume "\<forall>r. x ?c = Inr r \<longrightarrow> Err r = None \<or> \<not> IsMember r"
  then show "Any ctx [x] = x ?c"
    by (cases "x ?c") (auto simp: Any_def a)
qed

theorem reducer_identities_witness:
  "take 1 (sched Background) \<noteq> [Cancel]
   \<and> All_reduce Background [CheckError (ErrCause ''a'')] = CheckError (ErrCause ''a'') Background
   \<and> Difference Background [CheckError (ErrCause ''a'')] = CheckError (ErrCause ''a'') Background
   \<and> equivalent (Any Background [CheckError (ErrCause ''a'')])
        (CheckError (ErrCause ''a'') Background)
   \<and> Any Background [CheckError (ErrCause ''a'')] = CheckError (ErrCause ''a'') Background"
proof -
  have nc: "take 1 (sched Background) \<noteq> [Cancel]" by (simp add: Background_def)
  have c: "(case children Background of [] \<Rightarrow> Background | childCtx # _ \<Rightarrow> childCtx)
             = Background"
    by (simp add: Background_def)
  have v: "\<forall>r. CheckError (ErrCause ''a'')
                 (case children Background of [] \<Rightarrow> Background | childCtx # _ \<Rightarrow> childCtx) = Inr r
              \<longrightarrow> Err r = None \<or> \<not> IsMember r"
    by (auto simp: CheckError_def)
  note i = reducer_identities [of Background "CheckError (ErrCause ''a'')",
      THEN conjunct2, THEN conjunct2, THEN mp, OF nc]
  from nc i [THEN conjunct1] i [THEN conjunct2, THEN conjunct1]
    i [THEN conjunct2, THEN conjunct2, THEN conjunct1]
    i [THEN conjunct2, THEN conjunct2, THEN conjunct2, THEN mp, OF v]
  show ?thesis unfolding c by blast
qed


subsection \<open>Direct check\<close>

lemma checkDirect_loop_acc:
  "checkDirect_loop cc req it acc =
     (if \<exists>tpl\<in>set it. User_Userset tpl = Goal req then Inl \<lparr>IsMember = True, Err = None\<rparr>
      else Inr (acc @ map (\<lambda>tpl. dispatch cc \<lparr>Start = User_Userset tpl, Goal = Goal req,
                                               AtRevision = AtRevision req,
                                               DepthRemaining = DepthRemaining req - 1\<rparr>)
                        (filter (\<lambda>tpl. Relation (User_Userset tpl) \<noteq> Ellipsis) it)))"
  by (induction it arbitrary: acc) (simp_all add: onrEqual_iff)

text \<open>
  C6. \<open>checkDirect\<close> queries the tuples of \<open>(Start.namespace, Start.object_id,
  Start.relation)\<close> at \<open>AtRevision\<close>. If the query fails, the result is \<open>{false, error}\<close>.
  If the userset of some tuple equals the goal, the result is \<open>{true, nil}\<close>, whatever the
  tuples after it are and whether or not the iteration would fail later. Otherwise the
  loop enqueues, for every tuple whose userset relation is not the ellipsis, the dispatch
  of the request with \<open>Start\<close> that userset, the same goal and revision, and
  \<open>DepthRemaining - 1\<close>, and nothing for the other tuples; an iteration error then gives
  \<open>{false, error}\<close>, and without one the result is \<open>Any\<close> of the enqueued dispatches, which
  is \<open>{false, nil}\<close> when nothing was enqueued.
\<close>

theorem checkDirect_spec:
  "(\<forall>err. cc_ds cc (Namespace (Start req)) (AtRevision req) (ObjectId (Start req))
             (Relation (Start req)) ctx = Inl err
          \<longrightarrow> checkDirect cc ctx0 req ctx
                = Inr \<lparr>IsMember = False, Err = Some (NewCheckFailureErr err)\<rparr>)
   \<and> (\<forall>it itErr.
         cc_ds cc (Namespace (Start req)) (AtRevision req) (ObjectId (Start req))
           (Relation (Start req)) ctx = Inr (it, itErr)
         \<longrightarrow> ((\<exists>tpl\<in>set it. User_Userset tpl = Goal req)
                \<longrightarrow> checkDirect cc ctx0 req ctx = Inr \<lparr>IsMember = True, Err = None\<rparr>)
             \<and> ((\<forall>tpl\<in>set it. User_Userset tpl \<noteq> Goal req)
                \<longrightarrow> checkDirect_loop cc req it []
                      = Inr (map (\<lambda>tpl. dispatch cc \<lparr>Start = User_Userset tpl, Goal = Goal req,
                                                       AtRevision = AtRevision req,
                                                       DepthRemaining = DepthRemaining req - 1\<rparr>)
                                (filter (\<lambda>tpl. Relation (User_Userset tpl) \<noteq> Ellipsis) it))
                    \<and> (\<forall>err. itErr = Some err
                          \<longrightarrow> checkDirect cc ctx0 req ctx
                                = Inr \<lparr>IsMember = False, Err = Some (NewCheckFailureErr err)\<rparr>)
                    \<and> (itErr = None
                          \<longrightarrow> checkDirect cc ctx0 req ctx
                                = Any ctx
                                    (map (\<lambda>tpl. dispatch cc \<lparr>Start = User_Userset tpl,
                                                             Goal = Goal req,
                                                             AtRevision = AtRevision req,
                                                             DepthRemaining = DepthRemaining req - 1\<rparr>)
                                       (filter (\<lambda>tpl. Relation (User_Userset tpl) \<noteq> Ellipsis) it)))
                    \<and> (itErr = None \<and> (\<forall>tpl\<in>set it. Relation (User_Userset tpl) = Ellipsis)
                          \<longrightarrow> checkDirect cc ctx0 req ctx
                                = Inr \<lparr>IsMember = False, Err = None\<rparr>)))"
proof (intro conjI allI impI)
  fix err
  assume "cc_ds cc (Namespace (Start req)) (AtRevision req) (ObjectId (Start req))
             (Relation (Start req)) ctx = Inl err"
  then show "checkDirect cc ctx0 req ctx
                = Inr \<lparr>IsMember = False, Err = Some (NewCheckFailureErr err)\<rparr>"
    by (simp add: checkDirect_def)
next
  fix it itErr
  assume q: "cc_ds cc (Namespace (Start req)) (AtRevision req) (ObjectId (Start req))
           (Relation (Start req)) ctx = Inr (it, itErr)"
  {
    assume "\<exists>tpl\<in>set it. User_Userset tpl = Goal req"
    then show "checkDirect cc ctx0 req ctx = Inr \<lparr>IsMember = True, Err = None\<rparr>"
      using q by (simp add: checkDirect_def checkDirect_loop_acc)
  }
  assume no: "\<forall>tpl\<in>set it. User_Userset tpl \<noteq> Goal req"
  let ?reqs = "map (\<lambda>tpl. dispatch cc \<lparr>Start = User_Userset tpl, Goal = Goal req,
                                       AtRevision = AtRevision req,
                                       DepthRemaining = DepthRemaining req - 1\<rparr>)
                (filter (\<lambda>tpl. Relation (User_Userset tpl) \<noteq> Ellipsis) it)"
  from no show l: "checkDirect_loop cc req it [] = Inr ?reqs"
    by (simp add: checkDirect_loop_acc)
  {
    fix err
    assume "itErr = Some err"
    then show "checkDirect cc ctx0 req ctx
                 = Inr \<lparr>IsMember = False, Err = Some (NewCheckFailureErr err)\<rparr>"
      using q l by (simp add: checkDirect_def)
  }
  {
    assume "itErr = None"
    then show "checkDirect cc ctx0 req ctx = Any ctx ?reqs"
      using q l by (simp add: checkDirect_def)
  }
  assume "itErr = None \<and> (\<forall>tpl\<in>set it. Relation (User_Userset tpl) = Ellipsis)"
  then have "itErr = None" and "?reqs = []" by simp_all
  then show "checkDirect cc ctx0 req ctx = Inr \<lparr>IsMember = False, Err = None\<rparr>"
    using q l by (simp add: checkDirect_def Any_def)
qed


theorem checkDirect_spec_witness:
  "checkDirect example_cc Background (example_req ''viewer'' ''alice'' 3) Background
     = Inr \<lparr>IsMember = True, Err = None\<rparr>
   \<and> checkDirect example_cc Background (example_req ''viewer'' ''bob'' 3) Background
     = Any Background
         [dispatch example_cc
            \<lparr>Start = onr ''group'' ''g1'' ''member'', Goal = onr ''user'' ''bob'' ''...'',
             AtRevision = 7, DepthRemaining = 3 - 1\<rparr>]
   \<and> checkDirect example_cc Background (example_req ''parent'' ''bob'' 3) Background
     = Inr \<lparr>IsMember = False, Err = None\<rparr>
   \<and> checkDirect example_cc Background (example_req ''broken'' ''bob'' 3) Background
     = Inr \<lparr>IsMember = False, Err = Some (NewCheckFailureErr (ErrCause ''query failed''))\<rparr>
   \<and> checkDirect example_cc Background (example_req ''torn'' ''bob'' 3) Background
     = Inr \<lparr>IsMember = False, Err = Some (NewCheckFailureErr (ErrCause ''read failed''))\<rparr>"
proof -
  note defs = example_cc_def example_ds_def example_req_def onr_def Ellipsis_def onrEqual_def
  have "checkDirect example_cc Background (example_req ''viewer'' ''alice'' 3) Background
     = Inr \<lparr>IsMember = True, Err = None\<rparr>"
    using checkDirect_spec [of example_cc "example_req ''viewer'' ''alice'' 3" Background
        Background, THEN conjunct2]
    by (simp add: defs)
  moreover have "checkDirect example_cc Background (example_req ''viewer'' ''bob'' 3) Background
     = Any Background
         [dispatch example_cc
            \<lparr>Start = onr ''group'' ''g1'' ''member'', Goal = onr ''user'' ''bob'' ''...'',
             AtRevision = 7, DepthRemaining = 3 - 1\<rparr>]"
    using checkDirect_spec [of example_cc "example_req ''viewer'' ''bob'' 3" Background
        Background, THEN conjunct2]
    by (simp add: defs)
  moreover have "checkDirect example_cc Background (example_req ''parent'' ''bob'' 3) Background
     = Inr \<lparr>IsMember = False, Err = None\<rparr>"
    using checkDirect_spec [of example_cc "example_req ''parent'' ''bob'' 3" Background
        Background, THEN conjunct2]
    by (simp add: defs Any_def)
  moreover have "checkDirect example_cc Background (example_req ''broken'' ''bob'' 3) Background
     = Inr \<lparr>IsMember = False, Err = Some (NewCheckFailureErr (ErrCause ''query failed''))\<rparr>"
    using checkDirect_spec [of example_cc "example_req ''broken'' ''bob'' 3" Background
        Background, THEN conjunct1]
    by (simp add: defs)
  moreover have "checkDirect example_cc Background (example_req ''torn'' ''bob'' 3) Background
     = Inr \<lparr>IsMember = False, Err = Some (NewCheckFailureErr (ErrCause ''read failed''))\<rparr>"
    using checkDirect_spec [of example_cc "example_req ''torn'' ''bob'' 3" Background
        Background, THEN conjunct2]
    by (simp add: defs)
  ultimately show ?thesis by blast
qed

subsection \<open>Depth\<close>

text \<open>
  When the answers of the dispatcher do not depend on the depth of the request, nothing
  that the evaluator builds depends on the depth of its request.
\<close>

lemma dispatch_depth_irrelevant:
  assumes "\<forall>c q d. cc_d cc c (q\<lparr>DepthRemaining := d\<rparr>) = cc_d cc c q"
  shows "dispatch cc \<lparr>Start = s, Goal = g, AtRevision = r, DepthRemaining = a\<rparr>
           = dispatch cc \<lparr>Start = s, Goal = g, AtRevision = r, DepthRemaining = b\<rparr>"
proof -
  have "cc_d cc c \<lparr>Start = s, Goal = g, AtRevision = r, DepthRemaining = a\<rparr>
          = cc_d cc c \<lparr>Start = s, Goal = g, AtRevision = r, DepthRemaining = b\<rparr>" for c
  proof -
    from assms have "cc_d cc c (\<lparr>Start = s, Goal = g, AtRevision = r, DepthRemaining = b\<rparr>
                                 \<lparr>DepthRemaining := a\<rparr>)
          = cc_d cc c \<lparr>Start = s, Goal = g, AtRevision = r, DepthRemaining = b\<rparr>"
      by blast
    then show ?thesis by simp
  qed
  then show ?thesis by (simp add: dispatch_def)
qed

lemma checkDirect_loop_depth_irrelevant:
  assumes "\<forall>c q d. cc_d cc c (q\<lparr>DepthRemaining := d\<rparr>) = cc_d cc c q"
  shows "checkDirect_loop cc (req\<lparr>DepthRemaining := d\<rparr>) it acc = checkDirect_loop cc req it acc"
proof (induction it arbitrary: acc)
  case Nil
  show ?case by simp
next
  case (Cons tpl it)
  have "dispatch cc \<lparr>Start = User_Userset tpl, Goal = Goal req,
                     AtRevision = AtRevision req, DepthRemaining = d - 1\<rparr>
        = dispatch cc \<lparr>Start = User_Userset tpl, Goal = Goal req,
                       AtRevision = AtRevision req, DepthRemaining = DepthRemaining req - 1\<rparr>"
    by (rule dispatch_depth_irrelevant [OF assms])
  then show ?case by (simp add: Cons.IH)
qed

lemma checkDirect_depth_irrelevant:
  assumes "\<forall>c q d. cc_d cc c (q\<lparr>DepthRemaining := d\<rparr>) = cc_d cc c q"
  shows "checkDirect cc ctx (req\<lparr>DepthRemaining := d\<rparr>) = checkDirect cc ctx req"
  unfolding checkDirect_def checkDirect_loop_depth_irrelevant [OF assms] by simp

lemma checkComputedUserset_depth_irrelevant:
  assumes "\<forall>c q d. cc_d cc c (q\<lparr>DepthRemaining := d\<rparr>) = cc_d cc c q"
  shows "checkComputedUserset cc ctx (req\<lparr>DepthRemaining := d\<rparr>) cu tpl
           = checkComputedUserset cc ctx req cu tpl"
proof -
  have s: "checkComputedUserset_start (req\<lparr>DepthRemaining := d\<rparr>) cu tpl
             = checkComputedUserset_start req cu tpl"
    by (simp add: checkComputedUserset_start_def split: option.splits)
  have "dispatch cc \<lparr>Start = t, Goal = Goal req,
                     AtRevision = AtRevision req, DepthRemaining = d - 1\<rparr>
        = dispatch cc \<lparr>Start = t, Goal = Goal req,
                       AtRevision = AtRevision req, DepthRemaining = DepthRemaining req - 1\<rparr>" for t
    by (rule dispatch_depth_irrelevant [OF assms])
  then show ?thesis
    unfolding checkComputedUserset_def s Let_def
    by (simp split: sum.splits option.splits)
qed

lemma request_ptr_depth:
  "request_ptr (req\<lparr>DepthRemaining := d\<rparr>) = (request_ptr req)\<lparr>DepthRemaining := d\<rparr>"
  by (simp add: request_ptr_def)

lemma checkTupleToUserset_loop_depth_irrelevant:
  assumes "\<forall>c q d. cc_d cc c (q\<lparr>DepthRemaining := d\<rparr>) = cc_d cc c q"
  shows "checkTupleToUserset_loop cc ctx (req\<lparr>DepthRemaining := d\<rparr>) cu it acc
           = checkTupleToUserset_loop cc ctx req cu it acc"
  by (induction it arbitrary: acc)
     (simp_all add: request_ptr_depth checkComputedUserset_depth_irrelevant [OF assms]
        split: sum.splits)

lemma checkTupleToUserset_depth_irrelevant:
  assumes "\<forall>c q d. cc_d cc c (q\<lparr>DepthRemaining := d\<rparr>) = cc_d cc c q"
  shows "checkTupleToUserset cc ctx (req\<lparr>DepthRemaining := d\<rparr>) ttu
           = checkTupleToUserset cc ctx req ttu"
  unfolding checkTupleToUserset_def checkTupleToUserset_loop_depth_irrelevant [OF assms]
  by simp

lemma checkUsersetRewrite_depth_irrelevant:
  fixes cc :: "('r, 'd::{minus,one}) concurrentChecker"
  assumes H: "\<forall>c q d. cc_d cc c (q\<lparr>DepthRemaining := d\<rparr>) = cc_d cc c q"
  shows "checkUsersetRewrite cc ctx (req\<lparr>DepthRemaining := d\<rparr>) usr
           = checkUsersetRewrite cc ctx req usr"
    and "checkSetOperation cc ctx (req\<lparr>DepthRemaining := d\<rparr>) so reducer
           = checkSetOperation cc ctx req so reducer"
    and "checkSetOperation_loop cc ctx (req\<lparr>DepthRemaining := d\<rparr>) cs requests
           = checkSetOperation_loop cc ctx req cs requests"
  using H
proof (induction cc ctx req usr and cc ctx req so reducer and cc ctx req cs requests
    rule: checkUsersetRewrite_checkSetOperation_checkSetOperation_loop.induct)
  case (5 cc ctx req cs reducer)
  then show ?case by simp
next
  case (7 cc ctx req cs requests)
  then show ?case by (simp add: checkDirect_depth_irrelevant)
next
  case (8 cc ctx req cu cs requests)
  then show ?case
    by (simp add: request_ptr_depth checkComputedUserset_depth_irrelevant split: sum.splits)
next
  case (9 cc ctx req usr cs requests)
  then show ?case by (simp split: sum.splits)
next
  case (10 cc ctx req ttu cs requests)
  then show ?case by (simp add: checkTupleToUserset_depth_irrelevant)
qed simp_all


lemma check_depth_irrelevant:
  assumes "\<forall>c q d. cc_d cc c (q\<lparr>DepthRemaining := d\<rparr>) = cc_d cc c q"
  shows "check cc ctx (req\<lparr>DepthRemaining := d\<rparr>) relation = check cc ctx req relation"
  by (simp add: check_def checkDirect_depth_irrelevant [OF assms]
        checkUsersetRewrite_depth_irrelevant(1) [OF assms] split: option.splits)

text \<open>
  C1, as the code has it. At every depth, zero included:
  \<^item> when the direct check finds no tuple of the goal and the iteration does not fail, its
    result is \<open>Any\<close> of the dispatches of its loop, one for each tuple whose userset
    relation is not the ellipsis, each with \<open>DepthRemaining - 1\<close> (in the arithmetic of
    the depth's type), the goal and the revision of the request;
  \<^item> when the target of a computed userset is not the goal and its relation exists,
    \<open>checkComputedUserset\<close> is the dispatch of the target with \<open>DepthRemaining - 1\<close>, the
    goal and the revision of the request;
  \<^item> a dispatch hands its request to the outer dispatcher and sends its answer.

  The evaluator never tests \<open>DepthRemaining\<close>: when the answers of the dispatcher do not
  depend on the depth of the request it is given, the checks that \<open>check\<close> and
  \<open>checkComputedUserset\<close> return do not depend on the depth of their request.
\<close>

theorem dispatched_depth:
  "(\<forall>it. cc_ds cc (Namespace (Start req)) (AtRevision req) (ObjectId (Start req))
            (Relation (Start req)) ctx' = Inr (it, None)
          \<and> (\<forall>tpl\<in>set it. User_Userset tpl \<noteq> Goal req)
        \<longrightarrow> checkDirect cc ctx req ctx'
              = Any ctx'
                  (map (\<lambda>tpl. dispatch cc \<lparr>Start = User_Userset tpl, Goal = Goal req,
                                           AtRevision = AtRevision req,
                                           DepthRemaining = DepthRemaining req - 1\<rparr>)
                     (filter (\<lambda>tpl. Relation (User_Userset tpl) \<noteq> Ellipsis) it)))
   \<and> (\<forall>start.
         checkComputedUserset_start preq cu tpl = Inr (Some start)
         \<and> \<lparr>Namespace = Namespace start, ObjectId = ObjectId start,
             Relation = cu_Relation cu\<rparr> \<noteq> Goal preq
         \<and> cc_nsm cc ctx (Namespace start) (cu_Relation cu) True = None
        \<longrightarrow> checkComputedUserset cc ctx preq cu tpl
              = Inr (dispatch cc
                       \<lparr>Start = \<lparr>Namespace = Namespace start, ObjectId = ObjectId start,
                                 Relation = cu_Relation cu\<rparr>,
                        Goal = Goal preq, AtRevision = AtRevision preq,
                        DepthRemaining = DepthRemaining preq - 1\<rparr>))
   \<and> dispatch cc q ctx' = Inr (cc_d cc ctx' q)
   \<and> ((\<forall>c q d. cc_d cc c (q\<lparr>DepthRemaining := d\<rparr>) = cc_d cc c q)
        \<longrightarrow> check cc ctx (req\<lparr>DepthRemaining := d\<rparr>) relation = check cc ctx req relation
            \<and> checkComputedUserset cc ctx (preq\<lparr>DepthRemaining := d\<rparr>) cu tpl
                = checkComputedUserset cc ctx preq cu tpl)"
proof (intro conjI allI impI)
  fix it
  assume h: "cc_ds cc (Namespace (Start req)) (AtRevision req) (ObjectId (Start req))
            (Relation (Start req)) ctx' = Inr (it, None)
          \<and> (\<forall>tpl\<in>set it. User_Userset tpl \<noteq> Goal req)"
  then have q: "cc_ds cc (Namespace (Start req)) (AtRevision req) (ObjectId (Start req))
            (Relation (Start req)) ctx' = Inr (it, None)"
    and no: "\<forall>tpl\<in>set it. User_Userset tpl \<noteq> Goal req"
    by blast+
  from no have "checkDirect_loop cc req it []
      = Inr (map (\<lambda>tpl. dispatch cc \<lparr>Start = User_Userset tpl, Goal = Goal req,
                                       AtRevision = AtRevision req,
                                       DepthRemaining = DepthRemaining req - 1\<rparr>)
               (filter (\<lambda>tpl. Relation (User_Userset tpl) \<noteq> Ellipsis) it))"
    by (simp add: checkDirect_loop_acc)
  with q show "checkDirect cc ctx req ctx'
              = Any ctx'
                  (map (\<lambda>tpl. dispatch cc \<lparr>Start = User_Userset tpl, Goal = Goal req,
                                           AtRevision = AtRevision req,
                                           DepthRemaining = DepthRemaining req - 1\<rparr>)
                     (filter (\<lambda>tpl. Relation (User_Userset tpl) \<noteq> Ellipsis) it))"
    by (simp add: checkDirect_def)
next
  fix start
  assume "checkComputedUserset_start preq cu tpl = Inr (Some start)
         \<and> \<lparr>Namespace = Namespace start, ObjectId = ObjectId start,
             Relation = cu_Relation cu\<rparr> \<noteq> Goal preq
         \<and> cc_nsm cc ctx (Namespace start) (cu_Relation cu) True = None"
  then show "checkComputedUserset cc ctx preq cu tpl
              = Inr (dispatch cc
                       \<lparr>Start = \<lparr>Namespace = Namespace start, ObjectId = ObjectId start,
                                 Relation = cu_Relation cu\<rparr>,
                        Goal = Goal preq, AtRevision = AtRevision preq,
                        DepthRemaining = DepthRemaining preq - 1\<rparr>)"
    by (auto simp: checkComputedUserset_def Let_def onrEqual_iff)
next
  show "dispatch cc q ctx' = Inr (cc_d cc ctx' q)"
    by (simp add: dispatch_def)
next
  assume H: "\<forall>c q d. cc_d cc c (q\<lparr>DepthRemaining := d\<rparr>) = cc_d cc c q"
  show "check cc ctx (req\<lparr>DepthRemaining := d\<rparr>) relation = check cc ctx req relation"
    by (rule check_depth_irrelevant [OF H])
  show "checkComputedUserset cc ctx (preq\<lparr>DepthRemaining := d\<rparr>) cu tpl
                = checkComputedUserset cc ctx preq cu tpl"
    by (rule checkComputedUserset_depth_irrelevant [OF H])
qed

text \<open>
  The witness is at depth zero: the direct check and the computed userset both dispatch,
  with the depth \<open>0 - 1\<close>, and \<open>check\<close> at depth zero is \<open>check\<close> at depth three.
\<close>

theorem dispatched_depth_witness:
  "checkDirect example_cc Background (example_req ''viewer'' ''bob'' 0) Background
     = Any Background
         [dispatch example_cc
            \<lparr>Start = onr ''group'' ''g1'' ''member'', Goal = onr ''user'' ''bob'' ''...'',
             AtRevision = 7, DepthRemaining = 0 - 1\<rparr>]
   \<and> checkComputedUserset example_cc Background (request_ptr (example_req ''view'' ''bob'' 0))
        \<lparr>cu_Object = ComputedUserset_TUPLE_OBJECT, cu_Relation = ''viewer''\<rparr> None
     = Inr (dispatch example_cc
              \<lparr>Start = onr ''document'' ''doc1'' ''viewer'', Goal = onr ''user'' ''bob'' ''...'',
               AtRevision = 7, DepthRemaining = 0 - 1\<rparr>)
   \<and> dispatch example_cc
        \<lparr>Start = onr ''group'' ''g1'' ''member'', Goal = onr ''user'' ''bob'' ''...'',
         AtRevision = 7, DepthRemaining = 0 - 1\<rparr> Background
     = Inr \<lparr>IsMember = True, Err = None\<rparr>
   \<and> check example_cc Background (example_req ''viewer'' ''bob'' 0)
        \<lparr>Name = ''viewer'', Relation_UsersetRewrite = None\<rparr>
     = check example_cc Background (example_req ''viewer'' ''bob'' 3)
        \<lparr>Name = ''viewer'', Relation_UsersetRewrite = None\<rparr>"
proof -
  note defs = example_cc_def example_ds_def example_d_def example_nsm_def example_req_def
    onr_def Ellipsis_def request_ptr_def
  let ?q = "\<lparr>Start = onr ''group'' ''g1'' ''member'', Goal = onr ''user'' ''bob'' ''...'',
         AtRevision = 7::nat, DepthRemaining = (0::16 word) - 1\<rparr>"
  let ?U = "\<lparr>cu_Object = ComputedUserset_TUPLE_OBJECT, cu_Relation = ''viewer''\<rparr>"
  let ?rel = "\<lparr>Name = ''viewer'', Relation_UsersetRewrite = None\<rparr>"
  have H: "\<forall>c q d. cc_d example_cc c (q\<lparr>DepthRemaining := d\<rparr>) = cc_d example_cc c q"
    by (simp add: example_cc_def example_d_def)
  have "checkDirect example_cc Background (example_req ''viewer'' ''bob'' 0) Background
     = Any Background [dispatch example_cc ?q]"
    using dispatched_depth [where cc = example_cc and req = "example_req ''viewer'' ''bob'' 0"
        and ctx = Background and ctx' = Background, THEN conjunct1]
    by (simp add: defs)
  moreover have "checkComputedUserset example_cc Background
        (request_ptr (example_req ''view'' ''bob'' 0)) ?U None
     = Inr (dispatch example_cc
              \<lparr>Start = onr ''document'' ''doc1'' ''viewer'', Goal = onr ''user'' ''bob'' ''...'',
               AtRevision = 7, DepthRemaining = 0 - 1\<rparr>)"
    using dispatched_depth [where cc = example_cc and ctx = Background
        and preq = "request_ptr (example_req ''view'' ''bob'' 0)" and cu = ?U and tpl = None,
        THEN conjunct2, THEN conjunct1]
    by (simp add: defs checkComputedUserset_start_def)
  moreover have "dispatch example_cc ?q Background = Inr \<lparr>IsMember = True, Err = None\<rparr>"
    using dispatched_depth [where cc = example_cc and ctx' = Background and q = ?q,
        THEN conjunct2, THEN conjunct2, THEN conjunct1]
    by (simp add: defs)
  moreover have "check example_cc Background (example_req ''viewer'' ''bob'' 0) ?rel
     = check example_cc Background (example_req ''viewer'' ''bob'' 3) ?rel"
    using dispatched_depth [where cc = example_cc and ctx = Background
        and req = "example_req ''viewer'' ''bob'' 3" and d = 0 and relation = ?rel,
        THEN conjunct2, THEN conjunct2, THEN conjunct2, THEN mp, OF H, THEN conjunct1]
    by (simp add: example_req_def)
  ultimately show ?thesis by blast
qed

text \<open>
  The claim C1 as stated fails. With \<open>DepthRemaining = 0\<close>, the direct check of
  \<open>document:doc1#viewer\<close> for \<open>user:bob\<close> needs a dispatch, of \<open>group:g1#member\<close>; it makes
  it, and the result is the dispatcher's \<open>{true, nil}\<close>, not a failure for the exhausted
  depth.
\<close>

theorem depth_zero_counterexample:
  "DepthRemaining (example_req ''viewer'' ''bob'' 0) = 0
   \<and> checkDirect example_cc Background (example_req ''viewer'' ''bob'' 0) Background
       = Any Background
           [dispatch example_cc
              \<lparr>Start = onr ''group'' ''g1'' ''member'', Goal = onr ''user'' ''bob'' ''...'',
               AtRevision = 7, DepthRemaining = 0 - 1\<rparr>]
   \<and> checkDirect example_cc Background (example_req ''viewer'' ''bob'' 0) Background
       = Inr \<lparr>IsMember = True, Err = None\<rparr>"
  by (simp add: checkDirect_def example_cc_def example_ds_def example_d_def example_req_def
        onr_def Ellipsis_def onrEqual_def Any_def dispatch_def Background_def)

subsection \<open>Unrecognized variants\<close>

text \<open>
  C5. An unrecognized rewrite operation gives \<open>AlwaysFail\<close>. An unrecognized child of a
  set operation does not: the loop of \<open>checkSetOperation\<close> skips it, so that the set
  operation is evaluated as if the child were not there, and a union of one unrecognized
  child is \<open>{false, nil}\<close>.
\<close>

theorem unrecognized_child_ignored:
  "checkUsersetRewrite cc ctx req UsersetRewrite_unrecognized = Inr AlwaysFail
   \<and> AlwaysFail ctx' = Inr \<lparr>IsMember = False, Err = Some ErrAlwaysFail\<rparr>
   \<and> checkSetOperation cc ctx req (SetOperation (SetOperation_Child_unrecognized # cs)) reducer
       = checkSetOperation cc ctx req (SetOperation cs) reducer
   \<and> (\<exists>f. checkUsersetRewrite cc ctx req
             (UsersetRewrite_Union (SetOperation [SetOperation_Child_unrecognized])) = Inr f
          \<and> f ctx' = Inr \<lparr>IsMember = False, Err = None\<rparr>)"
  by (simp add: AlwaysFail_def Any_def)

theorem unrecognized_child_ignored_witness:
  "(\<exists>f. checkUsersetRewrite example_cc Background (example_req ''view'' ''bob'' 3)
        (UsersetRewrite_Union (SetOperation [SetOperation_Child_unrecognized])) = Inr f
      \<and> f Background = Inr \<lparr>IsMember = False, Err = None\<rparr>)
   \<and> checkUsersetRewrite example_cc Background (example_req ''view'' ''bob'' 3)
        UsersetRewrite_unrecognized = Inr AlwaysFail"
  using unrecognized_child_ignored [of example_cc Background "example_req ''view'' ''bob'' 3"
      Background "[]" Any]
  by blast

end
